theory Spec2Isabelle
  imports Main "HOL-Library.AList"
begin

section \<open>The storage engine as the index manager sees it\<close>

text \<open>
  The index manager of \<^verbatim>\<open>server/hdf5db.py\<close> works on h5py files. A file is modelled
  as a store of objects addressed by their physical address (\<^verbatim>\<open>h5o.get_info(obj.id).addr\<close>);
  the root group lives at address 0. An object carries the name of its Python class, its
  links in the engine's native iteration order (only groups have any) and its attributes.
  An object handle is the address of the object; two handles are equal (\<^verbatim>\<open>obj == tgtObj\<close>)
  exactly when the addresses are. A method returns \<open>Inr\<close> of its result, together with
  the manager when it may change it, or \<open>Inl\<close> of the exception that left it.
\<close>

type_synonym addr = nat

datatype error =
  KeyError | ValueError | NameError | UnboundLocalError | AttributeError | TypeError | Exception

datatype link = HardLink addr | SoftLink string | ExternalLink string string | OtherLink

datatype objclass = Group | Dataset | Datatype | OtherClass

record hobj =
  cls :: objclass
  links :: "(string \<times> link) list"
  attrs :: "(string \<times> string) list"

record h5file =
  objs :: "hobj list"

definition bind_e :: "error + 'a \<Rightarrow> ('a \<Rightarrow> error + 'b) \<Rightarrow> error + 'b" where
  "bind_e m k = (case m of Inl e \<Rightarrow> Inl e | Inr x \<Rightarrow> k x)"

definition obj_at :: "h5file \<Rightarrow> addr \<Rightarrow> hobj option" where
  "obj_at F a = (if a < length (objs F) then Some (objs F ! a) else None)"

definition upd_obj :: "h5file \<Rightarrow> addr \<Rightarrow> hobj \<Rightarrow> h5file" where
  "upd_obj F a g = F\<lparr>objs := (objs F)[a := g]\<rparr>"

definition links_of :: "h5file \<Rightarrow> addr \<Rightarrow> (string \<times> link) list" where
  "links_of F a = (case obj_at F a of None \<Rightarrow> [] | Some g \<Rightarrow> links g)"

definition attrs_of :: "h5file \<Rightarrow> addr \<Rightarrow> (string \<times> string) list" where
  "attrs_of F a = (case obj_at F a of None \<Rightarrow> [] | Some g \<Rightarrow> attrs g)"

text \<open>\<^verbatim>\<open>name in grp\<close>, for a plain link name: the group has a link of that name
  (whatever its class).\<close>

definition contains :: "h5file \<Rightarrow> addr \<Rightarrow> string \<Rightarrow> bool" where
  "contains F a n = (map_of (links_of F a) n \<noteq> None)"

text \<open>\<^verbatim>\<open>for k in grp\<close>: the names are read once, when the iteration starts, so that
  deleting a link inside the loop does not disturb it.\<close>

definition names_of :: "h5file \<Rightarrow> addr \<Rightarrow> string list" where
  "names_of F a = map fst (links_of F a)"

text \<open>The link a name of the group stands for (the link itself, not its target).\<close>

definition get_link :: "h5file \<Rightarrow> addr \<Rightarrow> string \<Rightarrow> link option" where
  "get_link F a n = map_of (links_of F a) n"

text \<open>
  Path lookup \<^verbatim>\<open>grp[path]\<close>. The path is cut at the slashes; empty components and
  \<^verbatim>\<open>.\<close> are dropped. Hard links lead to their object; a symbolic link is followed through
  its own path (from the root when that path is absolute, from the group holding the link
  otherwise), at most as many times as the fuel allows; an external link leads out of the
  file and a link of an unknown class leads nowhere, so both fail to resolve here.
\<close>

fun split_path_acc :: "string \<Rightarrow> string \<Rightarrow> string list" where
  "split_path_acc cur [] = (if cur = [] \<or> cur = ''.'' then [] else [cur])"
| "split_path_acc cur (c # cs) =
     (if c = CHR ''/'' then (if cur = [] \<or> cur = ''.'' then [] else [cur]) @ split_path_acc [] cs
      else split_path_acc (cur @ [c]) cs)"

definition split_path :: "string \<Rightarrow> string list" where
  "split_path p = split_path_acc [] p"

definition is_absolute :: "string \<Rightarrow> bool" where
  "is_absolute p = (case p of [] \<Rightarrow> False | c # _ \<Rightarrow> c = CHR ''/'')"

fun resolve :: "h5file \<Rightarrow> nat \<Rightarrow> addr \<Rightarrow> string list \<Rightarrow> addr option" where
  "resolve F n cur [] = (if cur < length (objs F) then Some cur else None)"
| "resolve F n cur (c # cs) =
     (case map_of (links_of F cur) c of
        None \<Rightarrow> None
      | Some (HardLink a) \<Rightarrow> resolve F n a cs
      | Some (SoftLink p) \<Rightarrow>
          (case n of 0 \<Rightarrow> None
           | Suc m \<Rightarrow> resolve F m (if is_absolute p then 0 else cur) (split_path p @ cs))
      | Some (ExternalLink fn p) \<Rightarrow> None
      | Some OtherLink \<Rightarrow> None)"

definition soft_link_limit :: nat where
  "soft_link_limit = 16"

definition getitem :: "h5file \<Rightarrow> addr \<Rightarrow> string \<Rightarrow> error + addr" where
  "getitem F a p =
     (case resolve F soft_link_limit (if is_absolute p then 0 else a) (split_path p) of
        None \<Rightarrow> Inl KeyError
      | Some b \<Rightarrow> Inr b)"

text \<open>\<^verbatim>\<open>grp[name] = obj\<close> and \<^verbatim>\<open>grp[name] = SoftLink(path)\<close>: a new link; the engine refuses
  a name that is taken.\<close>

definition set_link :: "h5file \<Rightarrow> addr \<Rightarrow> string \<Rightarrow> link \<Rightarrow> error + h5file" where
  "set_link F a n l =
     (case obj_at F a of
        None \<Rightarrow> Inl KeyError
      | Some g \<Rightarrow>
          if map_of (links g) n \<noteq> None then Inl ValueError
          else Inr (upd_obj F a (g\<lparr>links := links g @ [(n, l)]\<rparr>)))"

text \<open>\<^verbatim>\<open>del grp[name]\<close>.\<close>

definition del_link :: "h5file \<Rightarrow> addr \<Rightarrow> string \<Rightarrow> error + h5file" where
  "del_link F a n =
     (case obj_at F a of
        None \<Rightarrow> Inl KeyError
      | Some g \<Rightarrow>
          if map_of (links g) n = None then Inl KeyError
          else Inr (upd_obj F a (g\<lparr>links := AList.delete n (links g)\<rparr>)))"

text \<open>\<^verbatim>\<open>grp.create_group(name)\<close>: a new, empty group at a new address, hard-linked from
  \<^verbatim>\<open>grp\<close>.\<close>

definition new_group :: hobj where
  "new_group = \<lparr>cls = Group, links = [], attrs = []\<rparr>"

definition create_group :: "h5file \<Rightarrow> addr \<Rightarrow> string \<Rightarrow> error + (h5file \<times> addr)" where
  "create_group F a n =
     (if length (objs F) \<le> a then Inl KeyError
      else
        let b = length (objs F) in
        bind_e (set_link (F\<lparr>objs := objs F @ [new_group]\<rparr>) a n (HardLink b))
          (\<lambda>F'. Inr (F', b)))"

text \<open>Attributes: \<^verbatim>\<open>obj.attrs[k]\<close>, \<^verbatim>\<open>k in obj.attrs\<close>, \<^verbatim>\<open>obj.attrs[k] = v\<close>,
  \<^verbatim>\<open>del obj.attrs[k]\<close>.\<close>

definition attr_get :: "h5file \<Rightarrow> addr \<Rightarrow> string \<Rightarrow> string option" where
  "attr_get F a k = map_of (attrs_of F a) k"

definition attr_set :: "h5file \<Rightarrow> addr \<Rightarrow> string \<Rightarrow> string \<Rightarrow> error + h5file" where
  "attr_set F a k v =
     (case obj_at F a of
        None \<Rightarrow> Inl KeyError
      | Some g \<Rightarrow> Inr (upd_obj F a (g\<lparr>attrs := AList.update k v (attrs g)\<rparr>)))"

definition attr_del :: "h5file \<Rightarrow> addr \<Rightarrow> string \<Rightarrow> error + h5file" where
  "attr_del F a k =
     (case obj_at F a of
        None \<Rightarrow> Inl KeyError
      | Some g \<Rightarrow>
          if map_of (attrs g) k = None then Inl KeyError
          else Inr (upd_obj F a (g\<lparr>attrs := AList.delete k (attrs g)\<rparr>)))"

text \<open>\<^verbatim>\<open>str(n)\<close> of a non-negative integer: its decimal digits.\<close>

fun str_nat :: "nat \<Rightarrow> string" where
  "str_nat n =
     (if n < 10 then [char_of (48 + n)]
      else str_nat (n div 10) @ [char_of (48 + n mod 10)])"

declare str_nat.simps [simp del]

definition class_name :: "objclass \<Rightarrow> string" where
  "class_name c =
     (case c of Group \<Rightarrow> ''Group'' | Dataset \<Rightarrow> ''Dataset'' | Datatype \<Rightarrow> ''Datatype''
      | OtherClass \<Rightarrow> ''Other'')"


text \<open>\<^verbatim>\<open>grp[name]\<close> for a link name of the group (a collection name, a UUID string, a
  name the iteration produced): the object the link of that name leads to.\<close>

definition get_member :: "h5file \<Rightarrow> addr \<Rightarrow> string \<Rightarrow> error + addr" where
  "get_member F a n =
     (case resolve F soft_link_limit a [n] of None \<Rightarrow> Inl KeyError | Some b \<Rightarrow> Inr b)"

text \<open>
  \<^verbatim>\<open>grp.get(k, None, False, True)\<close> as h5py answers it: \<^verbatim>\<open>None\<close>, the default, when
  the group has no link of that name; the link object when the link is hard, symbolic or
  external; for a link of any other class (a user-defined one) the call raises
  \<^verbatim>\<open>TypeError\<close> (``Unknown link type'').
\<close>

definition getlink :: "h5file \<Rightarrow> addr \<Rightarrow> string \<Rightarrow> error + link option" where
  "getlink F a n =
     (case get_link F a n of
        None \<Rightarrow> Inr None
      | Some OtherLink \<Rightarrow> Inl TypeError
      | Some l \<Rightarrow> Inr (Some l))"

section \<open>The index manager\<close>

text \<open>
  The fields of an \<^verbatim>\<open>Hdf5db\<close> instance. \<^verbatim>\<open>dbf\<close> is the shadow file of a read-only
  container; a writable manager has \<^verbatim>\<open>dbf = None\<close> and never reads it, so its value is
  irrelevant there. \<^verbatim>\<open>dbGrp\<close> is the handle of the index root: a group of \<^verbatim>\<open>f\<close> when the
  container is writable, the root group of \<^verbatim>\<open>dbf\<close> when it is read-only; it is unset
  until \<^verbatim>\<open>initFile\<close> has run. \<^verbatim>\<open>clock\<close> is the state of the UUID generator:
  \<^verbatim>\<open>uuid.uuid1()\<close> yields a value it has never produced before.
\<close>

record hdf5db =
  readonly :: bool
  f :: h5file
  dbf :: h5file
  dbGrp :: "addr option"
  httpStatus :: int
  httpMessage :: "string option"
  clock :: nat

definition uuid_str :: "nat \<Rightarrow> string" where
  "uuid_str n = ''uuid-'' @ str_nat n"

definition uuid1 :: "hdf5db \<Rightarrow> string \<times> hdf5db" where
  "uuid1 s = (uuid_str (clock s), s\<lparr>clock := Suc (clock s)\<rparr>)"

text \<open>The file that holds the index, and the handle of the index root in it.\<close>

definition dbfile :: "hdf5db \<Rightarrow> h5file" where
  "dbfile s = (if readonly s then dbf s else f s)"

definition set_dbfile :: "hdf5db \<Rightarrow> h5file \<Rightarrow> hdf5db" where
  "set_dbfile s F = (if readonly s then s\<lparr>dbf := F\<rparr> else s\<lparr>f := F\<rparr>)"

definition the_dbGrp :: "hdf5db \<Rightarrow> error + addr" where
  "the_dbGrp s = (case dbGrp s of None \<Rightarrow> Inl AttributeError | Some d \<Rightarrow> Inr d)"

definition is_db_path :: "string \<Rightarrow> bool" where
  "is_db_path path = (length path \<ge> 6 \<and> take 6 path = ''__db__'')"

definition class_collection :: "objclass \<Rightarrow> string option" where
  "class_collection c =
     (case c of Group \<Rightarrow> Some ''{groups}'' | Dataset \<Rightarrow> Some ''{datasets}''
      | Datatype \<Rightarrow> Some ''{datatypes}'' | OtherClass \<Rightarrow> None)"

text \<open>\<^verbatim>\<open>Hdf5db.visit(path, obj)\<close>, the callback of the traversal; \<^verbatim>\<open>obj\<close> is an object of
  \<^verbatim>\<open>f\<close>, and \<^verbatim>\<open>obj.name\<close> is its absolute path.\<close>

definition visit :: "hdf5db \<Rightarrow> string \<Rightarrow> addr \<Rightarrow> error + hdf5db" where
  "visit s path a =
     (case obj_at (f s) a of
        None \<Rightarrow> Inl KeyError
      | Some ob \<Rightarrow>
          if is_db_path path then Inr s
          else
            bind_e (the_dbGrp s) (\<lambda>d.
            case class_collection (cls ob) of
              None \<Rightarrow> Inr (s\<lparr>httpStatus := 500, httpMessage := Some ''Unexpected error''\<rparr>)
            | Some cname \<Rightarrow>
                bind_e (get_member (dbfile s) d cname) (\<lambda>col.
                case uuid1 s of (ident, s1) \<Rightarrow>
                bind_e (get_member (dbfile s1) d ''{addr}'') (\<lambda>addrGrp.
                bind_e
                  (if \<not> readonly s1 then
                     bind_e (set_link (f s1) col ident (HardLink a)) (\<lambda>F. Inr (s1\<lparr>f := F\<rparr>))
                   else if \<not> contains (dbf s1) d ''{paths}'' then Inl Exception
                   else
                     bind_e (get_member (dbf s1) d ''{paths}'') (\<lambda>paths.
                     bind_e (attr_set (dbf s1) paths ident (''/'' @ path)) (\<lambda>D.
                     Inr (s1\<lparr>dbf := D\<rparr>))))
                  (\<lambda>s2.
                bind_e (attr_set (dbfile s2) addrGrp (str_nat a) ident) (\<lambda>D.
                Inr (set_dbfile s2 D)))))))"

lemma length_upd_obj: "length (objs (upd_obj F a g)) = length (objs F)"
  by (simp add: upd_obj_def)

lemma length_set_link: "set_link F a n l = Inr F' \<Longrightarrow> length (objs F') = length (objs F)"
  by (auto simp: set_link_def length_upd_obj split: option.splits if_splits)

lemma length_attr_set: "attr_set F a k v = Inr F' \<Longrightarrow> length (objs F') = length (objs F)"
  by (auto simp: attr_set_def length_upd_obj split: option.splits)

lemma bind_e_Inr: "bind_e m k = Inr y \<longleftrightarrow> (\<exists>x. m = Inr x \<and> k x = Inr y)"
  by (cases m) (simp_all add: bind_e_def)

lemma dbfile_simps [simp]:
  "dbfile (s\<lparr>clock := c\<rparr>) = dbfile s"
  "dbfile (s\<lparr>httpStatus := h\<rparr>) = dbfile s"
  "dbfile (s\<lparr>httpMessage := m\<rparr>) = dbfile s"
  "dbfile (s\<lparr>dbGrp := g\<rparr>) = dbfile s"
  "dbfile (set_dbfile s D) = D"
  "readonly s \<Longrightarrow> dbfile s = dbf s"
  "\<not> readonly s \<Longrightarrow> dbfile s = f s"
  by (simp_all add: dbfile_def set_dbfile_def)

lemma set_dbfile_simps [simp]:
  "readonly (set_dbfile s D) = readonly s"
  "dbGrp (set_dbfile s D) = dbGrp s"
  "clock (set_dbfile s D) = clock s"
  "httpStatus (set_dbfile s D) = httpStatus s"
  "httpMessage (set_dbfile s D) = httpMessage s"
  "readonly s \<Longrightarrow> f (set_dbfile s D) = f s"
  "readonly s \<Longrightarrow> dbf (set_dbfile s D) = D"
  "\<not> readonly s \<Longrightarrow> f (set_dbfile s D) = D"
  "\<not> readonly s \<Longrightarrow> dbf (set_dbfile s D) = dbf s"
  by (simp_all add: set_dbfile_def)

lemma visit_length: 
  assumes "visit s p a = Inr s'" shows "length (objs (f s')) = length (objs (f s))"
proof (cases "readonly s")
  case True
  with assms show ?thesis
    apply (simp add: visit_def uuid1_def split: option.splits)
    apply (auto simp: bind_e_Inr uuid1_def split: option.splits if_splits)
    done
next
  case False
  with assms show ?thesis
    apply (simp add: visit_def uuid1_def split: option.splits)
    apply (auto simp: bind_e_Inr uuid1_def
         dest!: length_set_link length_attr_set split: option.splits if_splits)
    done
qed


text \<open>
  \<^verbatim>\<open>self.f.visititems(visitObj)\<close>: the engine's recursive traversal. It starts at the root
  group, which it does not report, walks the hard links of every group in native order,
  depth first, and calls \<^verbatim>\<open>visit\<close> with the relative path of each object the first time
  it reaches it; an object (an address) already seen is not reported again. The worklist
  holds the links still to follow, \<^verbatim>\<open>vis\<close> the addresses seen so far. An exception raised
  by the callback ends the traversal.
\<close>

definition hard_children :: "h5file \<Rightarrow> string \<Rightarrow> addr \<Rightarrow> (string \<times> addr) list" where
  "hard_children F p a =
     (case obj_at F a of
        None \<Rightarrow> []
      | Some g \<Rightarrow>
          if cls g \<noteq> Group then []
          else concat (map (\<lambda>(n, l). case l of
                  HardLink b \<Rightarrow> [((if p = [] then n else p @ ''/'' @ n), b)]
                | _ \<Rightarrow> []) (links g)))"

lemma walk_measure:
  assumes "\<not> (a \<in> set vis \<or> n \<le> a)"
  shows "card ({..<n} - set (a # vis)) < card ({..<n::nat} - set vis)"
proof -
  have 1: "a \<in> {..<n} - set vis" using assms by simp
  have 2: "{..<n} - set (a # vis) = ({..<n} - set vis) - {a}"
    by (simp only: list.set) blast
  have 3: "finite ({..<n} - set vis)" by simp
  show ?thesis unfolding 2 using 1 3 by (rule card_Diff1_less [rotated])
qed

function walk :: "hdf5db \<Rightarrow> (string \<times> addr) list \<Rightarrow> addr list \<Rightarrow> error + hdf5db" where
  "walk s [] vis = Inr s"
| "walk s ((p, a) # w) vis =
     (if a \<in> set vis \<or> length (objs (f s)) \<le> a then walk s w vis
      else case visit s p a of
             Inl e \<Rightarrow> Inl e
           | Inr s' \<Rightarrow> walk s' (hard_children (f s') p a @ w) (a # vis))"
  by pat_completeness auto
termination
proof (relation "measures [\<lambda>(s, w, vis). card ({..<length (objs (f s))} - set vis),
                           \<lambda>(s, w, vis). length w]", goal_cases)
  case 1
  show ?case by simp
next
  case (2 s p a w vis)
  then show ?case by simp
next
  case (3 s p a w vis s')
  have len: "length (objs (f s')) = length (objs (f s))"
    using 3(2) by (rule visit_length)
  show ?case
    using walk_measure [OF 3(1)] by (simp add: len del: set_simps)
qed


definition visititems :: "hdf5db \<Rightarrow> error + hdf5db" where
  "visititems s = walk s (hard_children (f s) [] 0) [0]"

text \<open>\<^verbatim>\<open>Hdf5db.initFile\<close>. \<^verbatim>\<open>init_index\<close> is its part after the two guards.\<close>

definition db_create_group :: "hdf5db \<Rightarrow> addr \<Rightarrow> string \<Rightarrow> error + hdf5db" where
  "db_create_group s d n =
     bind_e (create_group (dbfile s) d n) (\<lambda>(D, b). Inr (set_dbfile s D))"

definition init_index :: "hdf5db \<Rightarrow> addr \<Rightarrow> error + hdf5db" where
  "init_index s d =
     (case uuid1 s of (ident, s1) \<Rightarrow>
      bind_e (attr_set (dbfile s1) d ''rootUUID'' ident) (\<lambda>D.
      bind_e (db_create_group (set_dbfile s1 D) d ''{groups}'') (\<lambda>s2.
      bind_e (db_create_group s2 d ''{datasets}'') (\<lambda>s3.
      bind_e (db_create_group s3 d ''{datatypes}'') (\<lambda>s4.
      bind_e (db_create_group s4 d ''{addr}'') (\<lambda>s5.
      bind_e (if readonly s5 then db_create_group s5 d ''{paths}'' else Inr s5) (\<lambda>s6.
      visititems s6)))))))"

definition initFile :: "hdf5db \<Rightarrow> error + hdf5db" where
  "initFile s0 =
     (let s = s0\<lparr>httpStatus := 200, httpMessage := None\<rparr> in
      if readonly s then
        (let s1 = s\<lparr>dbGrp := Some 0\<rparr> in
         if contains (dbf s1) 0 ''{groups}'' then Inr s1
         else init_index s1 0)
      else if contains (f s) 0 ''__db__'' then
        bind_e (getitem (f s) 0 ''__db__'') (\<lambda>d. Inr (s\<lparr>dbGrp := Some d\<rparr>))
      else
        bind_e (create_group (f s) 0 ''__db__'') (\<lambda>(F, d).
        init_index (s\<lparr>f := F, dbGrp := Some d\<rparr>) d))"

text \<open>\<^verbatim>\<open>Hdf5db.getUUIDByAddress\<close>; the result \<^verbatim>\<open>None\<close> is Python's \<^verbatim>\<open>None\<close>.\<close>

definition getUUIDByAddress :: "hdf5db \<Rightarrow> addr \<Rightarrow> error + string option" where
  "getUUIDByAddress s a =
     bind_e (the_dbGrp s) (\<lambda>d.
     if \<not> contains (dbfile s) d ''{addr}'' then Inl Exception
     else
       bind_e (get_member (dbfile s) d ''{addr}'') (\<lambda>addrGrp.
       Inr (attr_get (dbfile s) addrGrp (str_nat a))))"

text \<open>\<^verbatim>\<open>Hdf5db.getUUIDByPath\<close>.\<close>

definition db_attr :: "hdf5db \<Rightarrow> string \<Rightarrow> error + string" where
  "db_attr s k =
     bind_e (the_dbGrp s) (\<lambda>d.
     case attr_get (dbfile s) d k of None \<Rightarrow> Inl KeyError | Some v \<Rightarrow> Inr v)"

definition getUUIDByPath :: "hdf5db \<Rightarrow> string \<Rightarrow> error + (hdf5db \<times> string option)" where
  "getUUIDByPath s0 path =
     bind_e (initFile s0) (\<lambda>s.
     if is_db_path path then Inl Exception
     else if path = ''/'' then bind_e (db_attr s ''rootUUID'') (\<lambda>u. Inr (s, Some u))
     else
       bind_e (getitem (f s) 0 path) (\<lambda>obj.
       bind_e (getUUIDByAddress s obj) (\<lambda>u. Inr (s, u))))"

definition cls_of :: "h5file \<Rightarrow> addr \<Rightarrow> objclass" where
  "cls_of F a = (case obj_at F a of None \<Rightarrow> OtherClass | Some g \<Rightarrow> cls g)"

definition not_found :: "hdf5db \<Rightarrow> hdf5db" where
  "not_found s = s\<lparr>httpStatus := 404, httpMessage := Some ''Resource not found''\<rparr>"

text \<open>\<^verbatim>\<open>Hdf5db.getDatasetByUuid\<close> and \<^verbatim>\<open>Hdf5db.getGroupByUuid\<close>; the second component of
  the result is the object found, \<^verbatim>\<open>None\<close> for Python's \<^verbatim>\<open>None\<close>.\<close>

definition by_path_map :: "hdf5db \<Rightarrow> objclass \<Rightarrow> string \<Rightarrow> error + addr option" where
  "by_path_map s c objUuid =
     bind_e (the_dbGrp s) (\<lambda>d.
     if \<not> contains (dbfile s) d ''{paths}'' then Inl Exception
     else
       bind_e (get_member (dbfile s) d ''{paths}'') (\<lambda>paths.
       case attr_get (dbfile s) paths objUuid of
         None \<Rightarrow> Inr None
       | Some path \<Rightarrow>
           bind_e (getitem (f s) 0 path) (\<lambda>obj.
           Inr (if cls_of (f s) obj \<noteq> c then None else Some obj))))"

definition by_collection :: "hdf5db \<Rightarrow> string \<Rightarrow> string \<Rightarrow> error + addr option" where
  "by_collection s cname objUuid =
     bind_e (the_dbGrp s) (\<lambda>d.
     bind_e (get_member (dbfile s) d cname) (\<lambda>col.
     if contains (dbfile s) col objUuid
     then bind_e (get_member (dbfile s) col objUuid) (\<lambda>obj. Inr (Some obj))
     else Inr None))"

definition getDatasetByUuid :: "hdf5db \<Rightarrow> string \<Rightarrow> error + (hdf5db \<times> addr option)" where
  "getDatasetByUuid s0 objUuid =
     bind_e (initFile s0) (\<lambda>s.
     bind_e (if \<not> readonly s then by_collection s ''{datasets}'' objUuid
             else by_path_map s Dataset objUuid) (\<lambda>obj.
     Inr (if obj = None then not_found s else s, obj)))"

definition getGroupByUuid :: "hdf5db \<Rightarrow> string \<Rightarrow> error + (hdf5db \<times> addr option)" where
  "getGroupByUuid s0 objUuid =
     bind_e (initFile s0) (\<lambda>s.
     bind_e (db_attr s ''rootUUID'') (\<lambda>root.
     bind_e (if objUuid = root then bind_e (getitem (f s) 0 ''/'') (\<lambda>obj. Inr (Some obj))
             else if \<not> readonly s then by_collection s ''{groups}'' objUuid
             else by_path_map s Group objUuid) (\<lambda>obj.
     Inr (if obj = None then not_found s else s, obj))))"

text \<open>
  \<^verbatim>\<open>Hdf5db.getItems\<close>. An item is the dictionary built for one child. The loop carries
  the local variables \<^verbatim>\<open>gotMarker\<close>, \<^verbatim>\<open>count\<close>, \<^verbatim>\<open>items\<close> and \<^verbatim>\<open>objClass\<close>; the last is
  unbound until a hard link has been looked at. The name \<^verbatim>\<open>typeFilter\<close> of the
  external-link branch is bound nowhere, so evaluating it raises \<^verbatim>\<open>NameError\<close>.
  A filter is true in a condition when it is neither \<^verbatim>\<open>None\<close> nor the empty string.
  The dictionary of an external link (\<open>ExternalItem\<close>) is therefore never completed.
  The link object comes from \<open>getlink\<close>, so a link of an unknown class ends the loop
  with the engine's \<^verbatim>\<open>TypeError\<close> before any branch is taken; the last branch is left
  for a link object that is none of the three classes, which is \<^verbatim>\<open>None\<close> only.
\<close>

datatype item =
  SoftItem string string
| ExternalItem string string string
| HardItem string string "string option" nat

definition truthy :: "string option \<Rightarrow> bool" where
  "truthy x = (case x of None \<Rightarrow> False | Some v \<Rightarrow> v \<noteq> [])"

fun items_loop ::
  "hdf5db \<Rightarrow> addr \<Rightarrow> string option \<Rightarrow> string option \<Rightarrow> int \<Rightarrow> string list \<Rightarrow>
   bool \<Rightarrow> int \<Rightarrow> string option \<Rightarrow> item list \<Rightarrow> error + item list" where
  "items_loop s parent classFilter marker limit [] gotMarker count objClass items = Inr items"
| "items_loop s parent classFilter marker limit (k # ks) gotMarker count objClass items =
     (if k = ''__db__'' then
        items_loop s parent classFilter marker limit ks gotMarker count objClass items
      else if \<not> gotMarker then
        (if Some k = marker
         then items_loop s parent classFilter marker limit ks True count objClass items
         else items_loop s parent classFilter marker limit ks gotMarker count objClass items)
      else
        bind_e (getlink (f s) parent k) (\<lambda>linkObj.
        case linkObj of
           Some (SoftLink p) \<Rightarrow>
             if truthy classFilter \<and> classFilter \<noteq> Some ''SoftLink'' then
               items_loop s parent classFilter marker limit ks gotMarker count objClass items
             else if limit > 0 \<and> count + 1 = limit then Inr (items @ [SoftItem k p])
             else items_loop s parent classFilter marker limit ks gotMarker (count + 1) objClass
                    (items @ [SoftItem k p])
         | Some (ExternalLink fn p) \<Rightarrow> Inl NameError
         | Some (HardLink b) \<Rightarrow>
             bind_e (get_member (f s) parent k) (\<lambda>obj.
             let oc = class_name (cls_of (f s) obj) in
             if truthy classFilter \<and> Some oc \<noteq> classFilter then
               items_loop s parent classFilter marker limit ks gotMarker count (Some oc) items
             else
               bind_e (getUUIDByAddress s obj) (\<lambda>u.
               let it = HardItem k oc u (length (attrs_of (f s) obj)) in
               if limit > 0 \<and> count + 1 = limit then Inr (items @ [it])
               else items_loop s parent classFilter marker limit ks gotMarker (count + 1)
                      (Some oc) (items @ [it])))
         | _ \<Rightarrow>
             (case objClass of
                None \<Rightarrow> Inl UnboundLocalError
              | Some oc \<Rightarrow>
                  items_loop s parent classFilter marker limit ks gotMarker count objClass items)))"

definition getItems ::
  "hdf5db \<Rightarrow> string \<Rightarrow> string option \<Rightarrow> string option \<Rightarrow> int \<Rightarrow>
   error + (hdf5db \<times> item list option)" where
  "getItems s0 grpUuid classFilter marker limit =
     bind_e (initFile s0) (\<lambda>s1.
     bind_e (getGroupByUuid s1 grpUuid) (\<lambda>(s, parent).
     case parent of
       None \<Rightarrow> Inr (s, None)
     | Some g \<Rightarrow>
         bind_e (items_loop s g classFilter marker limit (names_of (f s) g)
                   (marker = None) 0 None [])
           (\<lambda>items. Inr (s, Some items))))"

text \<open>\<^verbatim>\<open>Hdf5db.linkObject\<close>.\<close>

definition linkObject :: "hdf5db \<Rightarrow> string \<Rightarrow> string \<Rightarrow> string \<Rightarrow> error + (hdf5db \<times> bool)" where
  "linkObject s0 parentUUID childUUID linkName =
     bind_e (initFile s0) (\<lambda>s.
     if readonly s then
       Inr (s\<lparr>httpStatus := 403, httpMessage := Some ''Updates are not allowed''\<rparr>, False)
     else
       bind_e (getGroupByUuid s parentUUID) (\<lambda>(s, parentObj).
       case parentObj of
         None \<Rightarrow> Inr (s\<lparr>httpStatus := 404, httpMessage := Some ''Parent Group not found''\<rparr>, False)
       | Some p \<Rightarrow>
           bind_e (getDatasetByUuid s childUUID) (\<lambda>(s, childObj).
           bind_e (case childObj of None \<Rightarrow> getGroupByUuid s childUUID
                   | Some c \<Rightarrow> Inr (s, Some c)) (\<lambda>(s, childObj).
           case childObj of
             None \<Rightarrow>
               Inr (s\<lparr>httpStatus := 404, httpMessage := Some ''Child object not found''\<rparr>, False)
           | Some c \<Rightarrow>
               bind_e (if contains (f s) p linkName then del_link (f s) p linkName
                       else Inr (f s)) (\<lambda>F.
               bind_e (set_link F p linkName (HardLink c)) (\<lambda>F'.
               Inr (s\<lparr>f := F'\<rparr>, True)))))))"

text \<open>\<^verbatim>\<open>Hdf5db.unlinkObject\<close>: the loop over the names of \<^verbatim>\<open>parentGrp\<close>, on the file.
  Only hard links are dealt with. The groups it scans are taken to hold links of the three
  classes h5py knows: a link of a user-defined class, for which the engine's lookup would
  raise, is passed over here like a symbolic one.\<close>

fun unlink_names :: "h5file \<Rightarrow> addr \<Rightarrow> addr \<Rightarrow> string list \<Rightarrow> error + h5file" where
  "unlink_names F parentGrp tgtObj [] = Inr F"
| "unlink_names F parentGrp tgtObj (n # ns) =
     (case get_link F parentGrp n of
        Some (HardLink b) \<Rightarrow>
          bind_e (get_member F parentGrp n) (\<lambda>obj.
          if obj = tgtObj
          then bind_e (del_link F parentGrp n) (\<lambda>F'. unlink_names F' parentGrp tgtObj ns)
          else unlink_names F parentGrp tgtObj ns)
      | _ \<Rightarrow> unlink_names F parentGrp tgtObj ns)"

definition unlinkObject :: "h5file \<Rightarrow> addr \<Rightarrow> addr \<Rightarrow> error + h5file" where
  "unlinkObject F parentGrp tgtObj = unlink_names F parentGrp tgtObj (names_of F parentGrp)"

text \<open>
  \<^verbatim>\<open>Hdf5db.deleteGroup\<close>. The result is \<^verbatim>\<open>Some False\<close> for \<^verbatim>\<open>return False\<close> and
  \<^verbatim>\<open>None\<close> when the body ends without a \<^verbatim>\<open>return\<close>. \<^verbatim>\<open>unlink_groups\<close> is the loop over
  the names of the \<^verbatim>\<open>{groups}\<close> collection. A group handle is true in a condition.
\<close>

fun unlink_groups :: "h5file \<Rightarrow> addr \<Rightarrow> addr \<Rightarrow> string list \<Rightarrow> error + h5file" where
  "unlink_groups F groups tgtGrp [] = Inr F"
| "unlink_groups F groups tgtGrp (uuidName # ns) =
     bind_e (get_member F groups uuidName) (\<lambda>grp.
     bind_e (unlinkObject F grp tgtGrp) (\<lambda>F'.
     unlink_groups F' groups tgtGrp ns))"

definition deleteGroup :: "hdf5db \<Rightarrow> string \<Rightarrow> error + (hdf5db \<times> bool option)" where
  "deleteGroup s0 objUuid =
     bind_e (initFile s0) (\<lambda>s.
     if readonly s then
       Inr (s\<lparr>httpStatus := 403, httpMessage := Some ''Updates are not allowed''\<rparr>, Some False)
     else
       bind_e (db_attr s ''rootUUID'') (\<lambda>root.
       if objUuid = root then
         Inr (s\<lparr>httpStatus := 403, httpMessage := Some (''Can'' @ [CHR 0x27] @ ''t delete root group'')\<rparr>, Some False)
       else
         bind_e (getGroupByUuid s objUuid) (\<lambda>(s, tgt).
         case tgt of
           None \<Rightarrow> Inr (s, Some False)
         | Some tgtGrp \<Rightarrow>
             bind_e (getitem (f s) 0 ''/'') (\<lambda>rootGrp.
             bind_e (unlinkObject (f s) rootGrp tgtGrp) (\<lambda>F1.
             bind_e (the_dbGrp s) (\<lambda>d.
             bind_e (get_member F1 d ''{groups}'') (\<lambda>groups.
             bind_e (unlink_groups F1 groups tgtGrp (names_of F1 groups)) (\<lambda>F2.
             bind_e (get_member F2 d ''{addr}'') (\<lambda>addrGrp.
             bind_e (attr_del F2 addrGrp (str_nat tgtGrp)) (\<lambda>F3.
             bind_e (del_link F3 groups objUuid) (\<lambda>F4.
             Inr (s\<lparr>f := F4\<rparr>, None))))))))))))"

text \<open>The guard of \<^verbatim>\<open>initFile\<close>: the container counts as initialised when the root of
  a writable container has a member \<^verbatim>\<open>__db__\<close>, or the shadow file of a read-only
  container has a member \<^verbatim>\<open>{groups}\<close>.\<close>

definition index_present :: "hdf5db \<Rightarrow> bool" where
  "index_present s =
     (if readonly s then contains (dbf s) 0 ''{groups}'' else contains (f s) 0 ''__db__'')"

text \<open>
  What the traversal relies on, and keeps: the index root \<^verbatim>\<open>d\<close> holds the address
  collection \<^verbatim>\<open>g\<close> under \<^verbatim>\<open>{addr}\<close> (and, read-only, the path collection under
  \<^verbatim>\<open>{paths}\<close>) by hard links, as \<^verbatim>\<open>initFile\<close> creates them; and the address map, the
  attributes of \<^verbatim>\<open>g\<close>, has one entry per key, no UUID twice, keys that are the
  addresses seen so far and UUIDs that the generator has already produced.
\<close>

definition index_shape :: "hdf5db \<Rightarrow> addr \<Rightarrow> addr \<Rightarrow> bool" where
  "index_shape s d g \<longleftrightarrow>
     dbGrp s = Some d \<and>
     get_link (dbfile s) d ''{addr}'' = Some (HardLink g) \<and>
     g < length (objs (dbfile s)) \<and> g \<noteq> d \<and>
     (readonly s \<longrightarrow>
        (case get_link (dbfile s) d ''{paths}'' of
           Some (HardLink p) \<Rightarrow> p < length (objs (dbfile s)) \<and> p \<noteq> g \<and> p \<noteq> d
         | _ \<Rightarrow> False))"

definition addr_map_ok :: "hdf5db \<Rightarrow> addr \<Rightarrow> addr list \<Rightarrow> bool" where
  "addr_map_ok s g vis \<longleftrightarrow>
     (let A = attrs_of (dbfile s) g in
      distinct (map fst A) \<and> distinct (map snd A) \<and>
      (\<forall>(k, u) \<in> set A. k \<in> str_nat ` set vis \<and> u \<in> uuid_str ` {..<clock s}))"



text \<open>
  The listing as the specification words it, to compare \<^verbatim>\<open>getItems\<close> with. \<open>descr\<close>
  is the descriptor of a child that is a symbolic link or a hard link (there is none for
  another link). \<open>paginate_spec\<close> selects the names of a page: the entry of the index
  root is left out; with a marker, everything up to and including the first child of that
  name is skipped; a positive limit cuts the page, any other limit does not.
\<close>

definition descr :: "hdf5db \<Rightarrow> addr \<Rightarrow> string \<Rightarrow> item option" where
  "descr s g k =
     (case get_link (f s) g k of
        Some (SoftLink p) \<Rightarrow> Some (SoftItem k p)
      | Some (HardLink b) \<Rightarrow>
          (if b < length (objs (f s)) then
             (case getUUIDByAddress s b of
                Inl e \<Rightarrow> None
              | Inr u \<Rightarrow>
                  Some (HardItem k (class_name (cls_of (f s) b)) u (length (attrs_of (f s) b))))
           else None)
      | _ \<Rightarrow> None)"

definition page_from :: "int \<Rightarrow> int \<Rightarrow> string list \<Rightarrow> string list" where
  "page_from limit n ks = (if limit > 0 then take (nat (limit - n)) ks else ks)"

definition paginate_spec :: "string option \<Rightarrow> int \<Rightarrow> string list \<Rightarrow> string list" where
  "paginate_spec marker limit ks =
     (let cs = filter (\<lambda>k. k \<noteq> ''__db__'') ks;
          rest = (case marker of None \<Rightarrow> cs | Some m \<Rightarrow> tl (dropWhile (\<lambda>k. k \<noteq> m) cs))
      in page_from limit 0 rest)"

section \<open>Example containers\<close>

text \<open>A file as \<^verbatim>\<open>h5py.File(path, 'w')\<close> leaves it: the root group alone.\<close>

definition new_file :: h5file where
  "new_file = \<lparr>objs = [new_group]\<rparr>"

text \<open>
  A container whose root has the children \<^verbatim>\<open>a\<close> (group A), \<^verbatim>\<open>b\<close> (group B), \<^verbatim>\<open>c\<close>
  (a symbolic link), \<^verbatim>\<open>d\<close> (a dataset) and \<^verbatim>\<open>e\<close> (a named datatype); A links to itself
  and to the dataset, B links to A.
\<close>

definition ex_tree :: h5file where
  "ex_tree = \<lparr>objs =
     [\<lparr>cls = Group,
       links = [(''a'', HardLink 1), (''b'', HardLink 2), (''c'', SoftLink ''/a''),
                (''d'', HardLink 3), (''e'', HardLink 4)],
       attrs = []\<rparr>,
      \<lparr>cls = Group, links = [(''self'', HardLink 1), (''x'', HardLink 3)], attrs = []\<rparr>,
      \<lparr>cls = Group, links = [(''toA'', HardLink 1)], attrs = []\<rparr>,
      \<lparr>cls = Dataset, links = [], attrs = [(''units'', ''m'')]\<rparr>,
      \<lparr>cls = Datatype, links = [], attrs = []\<rparr>]\<rparr>"

text \<open>The same root with an external link at \<^verbatim>\<open>c\<close>.\<close>

definition ex_external :: h5file where
  "ex_external = \<lparr>objs =
     [\<lparr>cls = Group,
       links = [(''a'', HardLink 1), (''b'', HardLink 2), (''c'', ExternalLink ''other.h5'' ''/x''),
                (''d'', HardLink 3), (''e'', HardLink 4)],
       attrs = []\<rparr>,
      \<lparr>cls = Group, links = [], attrs = []\<rparr>,
      \<lparr>cls = Group, links = [], attrs = []\<rparr>,
      \<lparr>cls = Dataset, links = [], attrs = []\<rparr>,
      \<lparr>cls = Datatype, links = [], attrs = []\<rparr>]\<rparr>"

text \<open>A root whose only child is a link of a user-defined class, none of hard, symbolic
  and external.\<close>

definition ex_unknown :: h5file where
  "ex_unknown = \<lparr>objs = [\<lparr>cls = Group, links = [(''u'', OtherLink)], attrs = []\<rparr>]\<rparr>"

text \<open>A manager as \<^verbatim>\<open>Hdf5db.__init__\<close> leaves it, writable or read-only with a new
  shadow file.\<close>

definition open_rw :: "h5file \<Rightarrow> hdf5db" where
  "open_rw F = \<lparr>readonly = False, f = F, dbf = new_file, dbGrp = None, httpStatus = 200,
     httpMessage = None, clock = 0\<rparr>"

definition open_ro :: "h5file \<Rightarrow> hdf5db" where
  "open_ro F = \<lparr>readonly = True, f = F, dbf = new_file, dbGrp = None, httpStatus = 200,
     httpMessage = None, clock = 0\<rparr>"

text \<open>A container whose root already has a group \<^verbatim>\<open>__db__\<close>, with nothing in it.\<close>

definition ex_bare_db :: h5file where
  "ex_bare_db = \<lparr>objs =
     [\<lparr>cls = Group, links = [(''__db__'', HardLink 1)], attrs = []\<rparr>, new_group]\<rparr>"

text \<open>The first example container as \<^verbatim>\<open>initFile\<close> has it when it starts the traversal:
  the index root at address 5 with its four empty collections, and the manager then.\<close>

definition ex_tree_db :: h5file where
  "ex_tree_db = \<lparr>objs =
     [\<lparr>cls = Group,
       links = [(''a'', HardLink 1), (''b'', HardLink 2), (''c'', SoftLink ''/a''),
                (''d'', HardLink 3), (''e'', HardLink 4), (''__db__'', HardLink 5)],
       attrs = []\<rparr>,
      \<lparr>cls = Group, links = [(''self'', HardLink 1), (''x'', HardLink 3)], attrs = []\<rparr>,
      \<lparr>cls = Group, links = [(''toA'', HardLink 1)], attrs = []\<rparr>,
      \<lparr>cls = Dataset, links = [], attrs = [(''units'', ''m'')]\<rparr>,
      \<lparr>cls = Datatype, links = [], attrs = []\<rparr>,
      \<lparr>cls = Group,
       links = [(''{groups}'', HardLink 6), (''{datasets}'', HardLink 7),
                (''{datatypes}'', HardLink 8), (''{addr}'', HardLink 9)],
       attrs = [(''rootUUID'', ''uuid-0'')]\<rparr>,
      new_group, new_group, new_group, new_group]\<rparr>"

definition ex_indexing :: hdf5db where
  "ex_indexing = \<lparr>readonly = False, f = ex_tree_db, dbf = new_file, dbGrp = Some 5,
     httpStatus = 200, httpMessage = None, clock = 1\<rparr>"

text \<open>A read-only manager of an empty container whose shadow file holds the index
  already.\<close>

definition ex_shadow :: h5file where
  "ex_shadow = \<lparr>objs =
     [\<lparr>cls = Group,
       links = [(''{groups}'', HardLink 1), (''{datasets}'', HardLink 2),
                (''{datatypes}'', HardLink 3), (''{addr}'', HardLink 4),
                (''{paths}'', HardLink 5)],
       attrs = [(''rootUUID'', ''uuid-0'')]\<rparr>,
      new_group, new_group, new_group, new_group, new_group]\<rparr>"

definition ex_ro_indexed :: hdf5db where
  "ex_ro_indexed = \<lparr>readonly = True, f = new_file, dbf = ex_shadow, dbGrp = None,
     httpStatus = 200, httpMessage = None, clock = 1\<rparr>"

section \<open>Facts about the store\<close>


lemma obj_at_upd_obj:
  "obj_at (upd_obj F a g) b = (if b = a \<and> a < length (objs F) then Some g else obj_at F b)"
  by (simp add: obj_at_def upd_obj_def)

lemma obj_at_Some_less: "obj_at F a = Some g \<Longrightarrow> a < length (objs F)"
  by (simp add: obj_at_def split: if_splits)

lemma set_link_Inr:
  "set_link F a n l = Inr F' \<longleftrightarrow>
     (\<exists>g. obj_at F a = Some g \<and> map_of (links g) n = None \<and>
          F' = upd_obj F a (g\<lparr>links := links g @ [(n, l)]\<rparr>))"
  by (auto simp: set_link_def split: option.splits)

lemma attr_set_Inr:
  "attr_set F a k v = Inr F' \<longleftrightarrow>
     (\<exists>g. obj_at F a = Some g \<and> F' = upd_obj F a (g\<lparr>attrs := AList.update k v (attrs g)\<rparr>))"
  by (auto simp: attr_set_def split: option.splits)

lemma links_of_set_link:
  assumes "set_link F a n l = Inr F'"
  shows "links_of F' b = (if b = a then links_of F a @ [(n, l)] else links_of F b)"
  using assms
  by (auto simp: set_link_Inr links_of_def obj_at_upd_obj dest: obj_at_Some_less)

lemma attrs_of_set_link:
  assumes "set_link F a n l = Inr F'"
  shows "attrs_of F' b = attrs_of F b"
  using assms
  by (auto simp: set_link_Inr attrs_of_def obj_at_upd_obj dest: obj_at_Some_less)

lemma cls_of_set_link:
  assumes "set_link F a n l = Inr F'"
  shows "cls_of F' b = cls_of F b"
  using assms
  by (auto simp: set_link_Inr cls_of_def obj_at_upd_obj dest: obj_at_Some_less)

lemma set_link_fresh:
  assumes "set_link F a n l = Inr F'"
  shows "map_of (links_of F a) n = None" and "a < length (objs F)"
  using assms
  by (auto simp: set_link_Inr links_of_def dest: obj_at_Some_less)

lemma links_of_attr_set:
  assumes "attr_set F a k v = Inr F'"
  shows "links_of F' b = links_of F b"
  using assms
  by (auto simp: attr_set_Inr links_of_def obj_at_upd_obj dest: obj_at_Some_less)

lemma cls_of_attr_set:
  assumes "attr_set F a k v = Inr F'"
  shows "cls_of F' b = cls_of F b"
  using assms
  by (auto simp: attr_set_Inr cls_of_def obj_at_upd_obj dest: obj_at_Some_less)

lemma attrs_of_attr_set:
  assumes "attr_set F a k v = Inr F'"
  shows "attrs_of F' b = (if b = a then AList.update k v (attrs_of F a) else attrs_of F b)"
  using assms
  by (auto simp: attr_set_Inr attrs_of_def obj_at_upd_obj dest: obj_at_Some_less)

text \<open>Existing links survive: the order in which files only gain objects and links.\<close>

definition grows :: "h5file \<Rightarrow> h5file \<Rightarrow> bool" where
  "grows F F' \<longleftrightarrow>
     length (objs F) \<le> length (objs F') \<and>
     (\<forall>a n l. map_of (links_of F a) n = Some l \<longrightarrow> map_of (links_of F' a) n = Some l)"

lemma grows_refl: "grows F F"
  by (simp add: grows_def)

lemma grows_trans: "grows F G \<Longrightarrow> grows G H \<Longrightarrow> grows F H"
  by (auto simp: grows_def)

lemma grows_set_link: "set_link F a n l = Inr F' \<Longrightarrow> grows F F'"
  by (auto simp: grows_def links_of_set_link length_set_link map_add_Some_iff)

lemma grows_attr_set: "attr_set F a k v = Inr F' \<Longrightarrow> grows F F'"
  by (simp add: grows_def links_of_attr_set length_attr_set)

lemma links_of_append_obj:
  "links_of (F\<lparr>objs := objs F @ [g]\<rparr>) a =
     (if a < length (objs F) then links_of F a else if a = length (objs F) then links g else [])"
  by (auto simp: links_of_def obj_at_def nth_append)

lemma grows_append_obj: "grows F (F\<lparr>objs := objs F @ [g]\<rparr>)"
  unfolding grows_def
proof (intro conjI allI impI)
  show "length (objs F) \<le> length (objs (F\<lparr>objs := objs F @ [g]\<rparr>))" by simp
next
  fix a n l
  assume m: "map_of (links_of F a) n = Some l"
  then have "a < length (objs F)"
    by (auto simp: links_of_def obj_at_def split: if_splits)
  then show "map_of (links_of (F\<lparr>objs := objs F @ [g]\<rparr>) a) n = Some l"
    using m by (simp add: links_of_append_obj)
qed

lemma create_group_Inr:
  "create_group F a n = Inr (F', b) \<longleftrightarrow>
     a < length (objs F) \<and> b = length (objs F) \<and>
     set_link (F\<lparr>objs := objs F @ [new_group]\<rparr>) a n (HardLink (length (objs F))) = Inr F'"
  by (auto simp: create_group_def bind_e_Inr Let_def)

lemma grows_create_group: "create_group F a n = Inr (F', b) \<Longrightarrow> grows F F'"
  unfolding create_group_Inr
  by (blast intro: grows_trans grows_append_obj grows_set_link)




lemma visit_writable:
  assumes "visit s p a = Inr s'" and "\<not> readonly s"
  shows "s' = s \<or> s' = s\<lparr>httpStatus := 500, httpMessage := Some ''Unexpected error''\<rparr> \<or>
    (\<exists>ob d cname col addrGrp F1 F2.
        obj_at (f s) a = Some ob \<and> \<not> is_db_path p \<and> dbGrp s = Some d \<and>
        class_collection (cls ob) = Some cname \<and>
        get_member (f s) d cname = Inr col \<and>
        get_member (f s) d ''{addr}'' = Inr addrGrp \<and>
        set_link (f s) col (uuid_str (clock s)) (HardLink a) = Inr F1 \<and>
        attr_set F1 addrGrp (str_nat a) (uuid_str (clock s)) = Inr F2 \<and>
        s' = s\<lparr>clock := Suc (clock s), f := F2\<rparr>)"
  using assms
  apply (simp add: visit_def the_dbGrp_def split: option.splits if_splits)
   apply (auto simp: bind_e_Inr uuid1_def set_dbfile_def split: option.splits)
  done

lemma visit_readonly_mode:
  assumes "visit s p a = Inr s'" and "readonly s"
  shows "s' = s \<or> s' = s\<lparr>httpStatus := 500, httpMessage := Some ''Unexpected error''\<rparr> \<or>
    (\<exists>ob d cname col addrGrp paths D1 D2.
        obj_at (f s) a = Some ob \<and> \<not> is_db_path p \<and> dbGrp s = Some d \<and>
        class_collection (cls ob) = Some cname \<and>
        get_member (dbf s) d cname = Inr col \<and>
        get_member (dbf s) d ''{addr}'' = Inr addrGrp \<and>
        contains (dbf s) d ''{paths}'' \<and>
        get_member (dbf s) d ''{paths}'' = Inr paths \<and>
        attr_set (dbf s) paths (uuid_str (clock s)) (''/'' @ p) = Inr D1 \<and>
        attr_set D1 addrGrp (str_nat a) (uuid_str (clock s)) = Inr D2 \<and>
        s' = s\<lparr>clock := Suc (clock s), dbf := D2\<rparr>)"
  using assms
  apply (simp add: visit_def the_dbGrp_def split: option.splits if_splits)
   apply (auto simp: bind_e_Inr uuid1_def set_dbfile_def split: option.splits if_splits)
  done

lemma visit_readonly: "visit s p a = Inr s' \<Longrightarrow> readonly s' = readonly s"
  by (cases "readonly s") (auto dest: visit_writable visit_readonly_mode)

lemma visit_dbGrp: "visit s p a = Inr s' \<Longrightarrow> dbGrp s' = dbGrp s"
  by (cases "readonly s") (auto dest: visit_writable visit_readonly_mode)

lemma visit_f_readonly: "visit s p a = Inr s' \<Longrightarrow> readonly s \<Longrightarrow> f s' = f s"
  by (auto dest: visit_readonly_mode)

lemma visit_dbf_writable: "visit s p a = Inr s' \<Longrightarrow> \<not> readonly s \<Longrightarrow> dbf s' = dbf s"
  by (auto dest: visit_writable)

lemma visit_grows: "visit s p a = Inr s' \<Longrightarrow> grows (dbfile s) (dbfile s')"
proof (cases "readonly s")
  case True
  assume "visit s p a = Inr s'"
  from visit_readonly_mode [OF this True] True show ?thesis
    by (auto simp: grows_refl intro: grows_trans [OF grows_attr_set grows_attr_set])
next
  case False
  assume "visit s p a = Inr s'"
  from visit_writable [OF this False] False show ?thesis
    by (auto simp: grows_refl intro: grows_trans [OF grows_set_link grows_attr_set])
qed

lemma walk_preserves:
  assumes step: "\<And>s p a s'. P s \<Longrightarrow> visit s p a = Inr s' \<Longrightarrow> P s'"
  shows "walk s w vis = Inr s' \<Longrightarrow> P s \<Longrightarrow> P s'"
proof (induction s w vis rule: walk.induct)
  case (1 s vis)
  then show ?case by simp
next
  case (2 s p a w vis)
  show ?case
  proof (cases "a \<in> set vis \<or> length (objs (f s)) \<le> a")
    case True
    with 2 show ?thesis by simp
  next
    case False
    with 2(3) obtain s1 where v: "visit s p a = Inr s1"
      and w: "walk s1 (hard_children (f s1) p a @ w) (a # vis) = Inr s'"
      by (auto split: sum.splits)
    from step [OF 2(4) v] have "P s1" .
    with 2(2) [OF False v w] show ?thesis .
  qed
qed



lemma walk_readonly:
  assumes "walk s w vis = Inr s'"
  shows "readonly s' = readonly s"
proof (rule walk_preserves [where P = "\<lambda>t. readonly t = readonly s", OF _ assms])
  show "\<And>t p a t'. readonly t = readonly s \<Longrightarrow> visit t p a = Inr t' \<Longrightarrow> readonly t' = readonly s"
    by (simp add: visit_readonly)
qed simp

lemma walk_dbGrp:
  assumes "walk s w vis = Inr s'"
  shows "dbGrp s' = dbGrp s"
proof (rule walk_preserves [where P = "\<lambda>t. dbGrp t = dbGrp s", OF _ assms])
  show "\<And>t p a t'. dbGrp t = dbGrp s \<Longrightarrow> visit t p a = Inr t' \<Longrightarrow> dbGrp t' = dbGrp s"
    by (simp add: visit_dbGrp)
qed simp

lemma walk_f_readonly:
  assumes "walk s w vis = Inr s'" and "readonly s"
  shows "f s' = f s"
proof -
  have "readonly s' \<and> f s' = f s"
  proof (rule walk_preserves [where P = "\<lambda>t. readonly t \<and> f t = f s", OF _ assms(1)])
    show "\<And>t p a t'. readonly t \<and> f t = f s \<Longrightarrow> visit t p a = Inr t' \<Longrightarrow> readonly t' \<and> f t' = f s"
      by (simp add: visit_readonly visit_f_readonly)
  qed (simp add: assms(2))
  then show ?thesis by simp
qed

lemma walk_dbf_writable:
  assumes "walk s w vis = Inr s'" and "\<not> readonly s"
  shows "dbf s' = dbf s"
proof -
  have "\<not> readonly s' \<and> dbf s' = dbf s"
  proof (rule walk_preserves [where P = "\<lambda>t. \<not> readonly t \<and> dbf t = dbf s", OF _ assms(1)])
    show "\<And>t p a t'. \<not> readonly t \<and> dbf t = dbf s \<Longrightarrow> visit t p a = Inr t' \<Longrightarrow> \<not> readonly t' \<and> dbf t' = dbf s"
      by (simp add: visit_readonly visit_dbf_writable)
  qed (simp add: assms(2))
  then show ?thesis by simp
qed

lemma walk_grows:
  assumes "walk s w vis = Inr s'"
  shows "grows (dbfile s) (dbfile s')"
proof (rule walk_preserves [where P = "\<lambda>t. grows (dbfile s) (dbfile t)", OF _ assms])
  show "\<And>t p a t'. grows (dbfile s) (dbfile t) \<Longrightarrow> visit t p a = Inr t' \<Longrightarrow> grows (dbfile s) (dbfile t')"
    by (erule grows_trans) (erule visit_grows)
qed (rule grows_refl)

lemma db_create_group_Inr:
  "db_create_group s d n = Inr s' \<longleftrightarrow>
     (\<exists>D b. create_group (dbfile s) d n = Inr (D, b) \<and> s' = set_dbfile s D)"
  by (auto simp: db_create_group_def bind_e_Inr)

lemma create_group_link:
  assumes "create_group F a n = Inr (F', b)"
  shows "map_of (links_of F' a) n = Some (HardLink b)" and "b < length (objs F')"
    and "b = length (objs F)" and "links_of F' b = []" and "attrs_of F' b = []"
proof -
  let ?G = "F\<lparr>objs := objs F @ [new_group]\<rparr>"
  from assms have b: "b = length (objs F)" and nb: "a \<noteq> b"
    and sl: "set_link ?G a n (HardLink b) = Inr F'"
    by (simp_all add: create_group_Inr)
  show "b = length (objs F)" by fact
  from sl set_link_fresh(1) [OF sl] show "map_of (links_of F' a) n = Some (HardLink b)"
    by (simp add: links_of_set_link map_add_def)
  from length_set_link [OF sl] show "b < length (objs F')"
    by (simp add: b)
  show "links_of F' b = []"
    using nb by (simp add: links_of_set_link [OF sl] links_of_append_obj b new_group_def)
  show "attrs_of F' b = []"
    unfolding attrs_of_set_link [OF sl] by (simp add: attrs_of_def obj_at_def b new_group_def)
qed

lemma db_create_group_facts:
  assumes "db_create_group s d n = Inr s'"
  shows "readonly s' = readonly s" and "dbGrp s' = dbGrp s" and "clock s' = clock s"
    and "httpStatus s' = httpStatus s" and "httpMessage s' = httpMessage s"
    and "grows (dbfile s) (dbfile s')"
    and "readonly s \<Longrightarrow> f s' = f s" and "\<not> readonly s \<Longrightarrow> dbf s' = dbf s"
    and "map_of (links_of (dbfile s') d) n = Some (HardLink (length (objs (dbfile s))))"
    and "length (objs (dbfile s)) < length (objs (dbfile s'))"
    and "links_of (dbfile s') (length (objs (dbfile s))) = []"
    and "attrs_of (dbfile s') (length (objs (dbfile s))) = []"
proof -
  from assms obtain D b where c: "create_group (dbfile s) d n = Inr (D, b)"
    and s': "s' = set_dbfile s D"
    by (auto simp: db_create_group_Inr)
  show "readonly s' = readonly s" "dbGrp s' = dbGrp s" "clock s' = clock s"
    "httpStatus s' = httpStatus s" "httpMessage s' = httpMessage s"
    by (simp_all add: s')
  show "grows (dbfile s) (dbfile s')"
    using grows_create_group [OF c] by (simp add: s')
  show "readonly s \<Longrightarrow> f s' = f s" by (simp add: s')
  show "\<not> readonly s \<Longrightarrow> dbf s' = dbf s" by (simp add: s')
  show "map_of (links_of (dbfile s') d) n = Some (HardLink (length (objs (dbfile s))))"
    using create_group_link(1,3) [OF c] by (simp add: s')
  show "length (objs (dbfile s)) < length (objs (dbfile s'))"
    using create_group_link(2,3) [OF c] by (simp add: s')
  show "links_of (dbfile s') (length (objs (dbfile s))) = []"
    using create_group_link(3,4) [OF c] by (simp add: s')
  show "attrs_of (dbfile s') (length (objs (dbfile s))) = []"
    using create_group_link(3,5) [OF c] by (simp add: s')
qed

lemma init_index_Inr:
  "init_index s d = Inr s' \<longleftrightarrow>
     (\<exists>D s2 s3 s4 s5 s6.
        attr_set (dbfile s) d ''rootUUID'' (uuid_str (clock s)) = Inr D \<and>
        db_create_group (set_dbfile (s\<lparr>clock := Suc (clock s)\<rparr>) D) d ''{groups}'' = Inr s2 \<and>
        db_create_group s2 d ''{datasets}'' = Inr s3 \<and>
        db_create_group s3 d ''{datatypes}'' = Inr s4 \<and>
        db_create_group s4 d ''{addr}'' = Inr s5 \<and>
        (if readonly s5 then db_create_group s5 d ''{paths}'' else Inr s5) = Inr s6 \<and>
        visititems s6 = Inr s')"
  by (simp add: init_index_def uuid1_def bind_e_Inr)

lemma visititems_facts:
  assumes "visititems s = Inr s'"
  shows "readonly s' = readonly s" and "dbGrp s' = dbGrp s"
    and "grows (dbfile s) (dbfile s')"
    and "readonly s \<Longrightarrow> f s' = f s" and "\<not> readonly s \<Longrightarrow> dbf s' = dbf s"
proof -
  have w: "walk s (hard_children (f s) [] 0) [0] = Inr s'"
    using assms by (simp add: visititems_def)
  show "readonly s' = readonly s" by (rule walk_readonly [OF w])
  show "dbGrp s' = dbGrp s" by (rule walk_dbGrp [OF w])
  show "grows (dbfile s) (dbfile s')" by (rule walk_grows [OF w])
  show "readonly s \<Longrightarrow> f s' = f s" by (rule walk_f_readonly [OF w])
  show "\<not> readonly s \<Longrightarrow> dbf s' = dbf s" by (rule walk_dbf_writable [OF w])
qed

lemma init_index_facts:
  assumes "init_index s d = Inr s'"
  shows "readonly s' = readonly s" and "dbGrp s' = dbGrp s"
    and "readonly s \<Longrightarrow> f s' = f s" and "\<not> readonly s \<Longrightarrow> dbf s' = dbf s"
    and "contains (dbfile s') d ''{groups}''"
    and "grows (dbfile s) (dbfile s')"
proof -
  from assms obtain D s2 s3 s4 s5 s6 where
    a: "attr_set (dbfile s) d ''rootUUID'' (uuid_str (clock s)) = Inr D" and
    c2: "db_create_group (set_dbfile (s\<lparr>clock := Suc (clock s)\<rparr>) D) d ''{groups}'' = Inr s2" and
    c3: "db_create_group s2 d ''{datasets}'' = Inr s3" and
    c4: "db_create_group s3 d ''{datatypes}'' = Inr s4" and
    c5: "db_create_group s4 d ''{addr}'' = Inr s5" and
    c6: "(if readonly s5 then db_create_group s5 d ''{paths}'' else Inr s5) = Inr s6" and
    v: "visititems s6 = Inr s'"
    unfolding init_index_Inr by blast
  let ?s1 = "set_dbfile (s\<lparr>clock := Suc (clock s)\<rparr>) D"
  have r5: "readonly s5 = readonly s"
    using db_create_group_facts(1) [OF c2] db_create_group_facts(1) [OF c3]
      db_create_group_facts(1) [OF c4] db_create_group_facts(1) [OF c5] by simp
  have r6: "readonly s6 = readonly s"
    using c6 r5 by (auto split: if_splits dest: db_create_group_facts(1))
  show "readonly s' = readonly s"
    using visititems_facts(1) [OF v] r6 by simp
  have g5: "dbGrp s5 = dbGrp s"
    using db_create_group_facts(2) [OF c2] db_create_group_facts(2) [OF c3]
      db_create_group_facts(2) [OF c4] db_create_group_facts(2) [OF c5] by simp
  have g6: "dbGrp s6 = dbGrp s"
    using c6 g5 by (auto split: if_splits dest: db_create_group_facts(2))
  show "dbGrp s' = dbGrp s"
    using visititems_facts(2) [OF v] g6 by simp
  show "f s' = f s" if ro: "readonly s"
  proof -
    have 1: "readonly ?s1" using ro by simp
    have "f s2 = f s" using db_create_group_facts(7) [OF c2 1] ro by simp
    moreover have "readonly s2" using db_create_group_facts(1) [OF c2] ro by simp
    then have "f s3 = f s2" and "readonly s3"
      using db_create_group_facts(7) [OF c3] db_create_group_facts(1) [OF c3] by simp_all
    moreover from \<open>readonly s3\<close> have "f s4 = f s3" and "readonly s4"
      using db_create_group_facts(7) [OF c4] db_create_group_facts(1) [OF c4] by simp_all
    moreover from \<open>readonly s4\<close> have "f s5 = f s4" and "readonly s5"
      using db_create_group_facts(7) [OF c5] db_create_group_facts(1) [OF c5] by simp_all
    moreover from \<open>readonly s5\<close> c6 have "f s6 = f s5" and "readonly s6"
      using db_create_group_facts(7) [of s5 d "''{paths}''" s6]
        db_create_group_facts(1) [of s5 d "''{paths}''" s6] by simp_all
    moreover from \<open>readonly s6\<close> have "f s' = f s6"
      using visititems_facts(4) [OF v] by simp
    ultimately show ?thesis by simp
  qed
  show "dbf s' = dbf s" if rw: "\<not> readonly s"
  proof -
    have 1: "\<not> readonly ?s1" using rw by simp
    have "dbf s2 = dbf s" using db_create_group_facts(8) [OF c2 1] rw by simp
    moreover have "\<not> readonly s2" using db_create_group_facts(1) [OF c2] rw by simp
    then have "dbf s3 = dbf s2" and "\<not> readonly s3"
      using db_create_group_facts(8) [OF c3] db_create_group_facts(1) [OF c3] by simp_all
    moreover from \<open>\<not> readonly s3\<close> have "dbf s4 = dbf s3" and "\<not> readonly s4"
      using db_create_group_facts(8) [OF c4] db_create_group_facts(1) [OF c4] by simp_all
    moreover from \<open>\<not> readonly s4\<close> have "dbf s5 = dbf s4" and "\<not> readonly s5"
      using db_create_group_facts(8) [OF c5] db_create_group_facts(1) [OF c5] by simp_all
    moreover from \<open>\<not> readonly s5\<close> c6 have "s6 = s5" by simp
    moreover from \<open>\<not> readonly s5\<close> \<open>s6 = s5\<close> have "dbf s' = dbf s6"
      using visititems_facts(5) [OF v] by simp
    ultimately show ?thesis by simp
  qed
  have "grows (dbfile s2) (dbfile s3)" "grows (dbfile s3) (dbfile s4)"
    "grows (dbfile s4) (dbfile s5)"
    using db_create_group_facts(6) [OF c3] db_create_group_facts(6) [OF c4]
      db_create_group_facts(6) [OF c5] by simp_all
  moreover have "grows (dbfile s5) (dbfile s6)"
    using c6 by (auto split: if_splits simp: grows_refl dest: db_create_group_facts(6))
  moreover have "grows (dbfile s6) (dbfile s')"
    using visititems_facts(3) [OF v] .
  ultimately have "grows (dbfile s2) (dbfile s')"
    by (blast intro: grows_trans)
  moreover have "map_of (links_of (dbfile s2) d) ''{groups}'' \<noteq> None"
    using db_create_group_facts(9) [OF c2] by simp
  ultimately show "contains (dbfile s') d ''{groups}''"
    by (auto simp: contains_def grows_def)
  have "grows (dbfile s) D"
    using grows_attr_set [OF a] .
  moreover have "grows D (dbfile s2)"
    using db_create_group_facts(6) [OF c2] by simp
  ultimately show "grows (dbfile s) (dbfile s')"
    using \<open>grows (dbfile s2) (dbfile s')\<close> by (blast intro: grows_trans)
qed

fun digits_val :: "string \<Rightarrow> nat" where
  "digits_val cs = foldl (\<lambda>acc c. 10 * acc + (of_char c - 48)) 0 cs"

lemma digits_val_snoc: "digits_val (cs @ [c]) = 10 * digits_val cs + (of_char c - 48)"
  by simp

lemma digits_val_str_nat: "digits_val (str_nat n) = n"
proof (induction n rule: str_nat.induct)
  case (1 n)
  show ?case
  proof (cases "n < 10")
    case True
    then have "(48 + n) mod 256 = 48 + n" by simp
    with True show ?thesis
      by (subst str_nat.simps) simp
  next
    case False
    have "n mod 10 < 10" by simp
    then have "(48 + n mod 10) mod 256 = 48 + n mod 10" by simp
    with False 1 show ?thesis
      by (subst str_nat.simps) (simp add: digits_val_snoc del: digits_val.simps)
  qed
qed

lemma str_nat_inj: "str_nat a = str_nat b \<longleftrightarrow> a = b"
  by (metis digits_val_str_nat)

lemma uuid_str_inj: "uuid_str a = uuid_str b \<longleftrightarrow> a = b"
  by (simp add: uuid_str_def str_nat_inj)

lemma split_path_db: "split_path ''__db__'' = [''__db__'']"
  by (simp add: split_path_def)

lemma getitem_db:
  "getitem F 0 ''__db__'' =
     (case resolve F soft_link_limit 0 [''__db__''] of None \<Rightarrow> Inl KeyError | Some b \<Rightarrow> Inr b)"
  by (simp add: getitem_def split_path_db is_absolute_def)

lemma initFile_present:
  assumes "index_present s"
  shows "initFile s =
     (if readonly s then Inr (s\<lparr>httpStatus := 200, httpMessage := None, dbGrp := Some 0\<rparr>)
      else bind_e (getitem (f s) 0 ''__db__'')
             (\<lambda>d. Inr (s\<lparr>httpStatus := 200, httpMessage := None, dbGrp := Some d\<rparr>)))"
  using assms by (cases "readonly s") (simp_all add: initFile_def index_present_def Let_def)

lemma initFile_absent:
  assumes "\<not> index_present s"
  shows "initFile s =
     (if readonly s then init_index (s\<lparr>httpStatus := 200, httpMessage := None, dbGrp := Some 0\<rparr>) 0
      else bind_e (create_group (f s) 0 ''__db__'')
             (\<lambda>(F, d). init_index (s\<lparr>httpStatus := 200, httpMessage := None, f := F,
                                      dbGrp := Some d\<rparr>) d))"
  using assms by (cases "readonly s") (simp_all add: initFile_def index_present_def Let_def)

lemma initFile_facts:
  assumes "initFile s = Inr s'"
  shows "readonly s' = readonly s"
    and "readonly s \<Longrightarrow> f s' = f s"
    and "\<not> readonly s \<Longrightarrow> dbf s' = dbf s"
    and "index_present s'"
    and "readonly s \<Longrightarrow> dbGrp s' = Some 0"
    and "\<not> readonly s \<Longrightarrow> \<exists>d. dbGrp s' = Some d \<and> getitem (f s') 0 ''__db__'' = Inr d"
    and "index_present s \<Longrightarrow> f s' = f s \<and> dbf s' = dbf s"
proof -
  let ?t = "s\<lparr>httpStatus := 200, httpMessage := None, dbGrp := Some 0\<rparr>"
  have all: "readonly s' = readonly s \<and> (readonly s \<longrightarrow> f s' = f s) \<and>
      (\<not> readonly s \<longrightarrow> dbf s' = dbf s) \<and> index_present s' \<and>
      (readonly s \<longrightarrow> dbGrp s' = Some 0) \<and>
      (\<not> readonly s \<longrightarrow> (\<exists>d. dbGrp s' = Some d \<and> getitem (f s') 0 ''__db__'' = Inr d)) \<and>
      (index_present s \<longrightarrow> f s' = f s \<and> dbf s' = dbf s)"
  proof (cases "index_present s")
    case True
    show ?thesis
      using assms True unfolding initFile_present [OF True]
      by (auto simp: bind_e_Inr index_present_def split: if_splits)
  next
    case False
    show ?thesis
    proof (cases "readonly s")
      case ro: True
      from assms False ro have i: "init_index ?t 0 = Inr s'"
        by (simp add: initFile_absent)
      from init_index_facts [OF i] ro False show ?thesis
        by (simp add: index_present_def)
    next
      case rw: False
      from assms False rw obtain F d where
        c: "create_group (f s) 0 ''__db__'' = Inr (F, d)" and
        i: "init_index (s\<lparr>httpStatus := 200, httpMessage := None, f := F, dbGrp := Some d\<rparr>) d = Inr s'"
        by (auto simp: initFile_absent bind_e_Inr)
      let ?u = "s\<lparr>httpStatus := 200, httpMessage := None, f := F, dbGrp := Some d\<rparr>"
      have rw': "\<not> readonly s'" using init_index_facts(1) [OF i] rw by simp
      have g: "grows F (f s')"
        using init_index_facts(6) [OF i] rw rw' by simp
      have l: "map_of (links_of F 0) ''__db__'' = Some (HardLink d)" and dl: "d < length (objs F)"
        using create_group_link(1,2) [OF c] by simp_all
      from g l dl have l': "map_of (links_of (f s') 0) ''__db__'' = Some (HardLink d)"
        and dl': "d < length (objs (f s'))"
        by (auto simp: grows_def)
      have "getitem (f s') 0 ''__db__'' = Inr d"
        using l' dl' by (simp add: getitem_db)
      moreover have "dbGrp s' = Some d"
        using init_index_facts(2) [OF i] by simp
      moreover have "dbf s' = dbf s"
        using init_index_facts(4) [OF i] rw by simp
      moreover have "index_present s'"
        using l' rw' by (simp add: index_present_def contains_def)
      ultimately show ?thesis
        using rw rw' False by simp
    qed
  qed
  from all show "readonly s' = readonly s" by simp
  from all show "readonly s \<Longrightarrow> f s' = f s" by simp
  from all show "\<not> readonly s \<Longrightarrow> dbf s' = dbf s" by simp
  from all show "index_present s'" by simp
  from all show "readonly s \<Longrightarrow> dbGrp s' = Some 0" by simp
  from all show "\<not> readonly s \<Longrightarrow> \<exists>d. dbGrp s' = Some d \<and> getitem (f s') 0 ''__db__'' = Inr d" by simp
  from all show "index_present s \<Longrightarrow> f s' = f s \<and> dbf s' = dbf s" by simp
qed

lemma initFile_again:
  assumes "initFile s = Inr s'"
  shows "initFile s' = Inr (s'\<lparr>httpStatus := 200, httpMessage := None\<rparr>)"
proof (cases "readonly s")
  case True
  with initFile_facts(1,4,5) [OF assms] show ?thesis
    by (simp add: initFile_present)
next
  case False
  with initFile_facts(1,4,6) [OF assms] show ?thesis
    by (auto simp: initFile_present bind_e_def)
qed

lemma get_member_hard:
  assumes "get_link F a n = Some (HardLink b)" and "b < length (objs F)"
  shows "get_member F a n = Inr b"
  using assms by (simp add: get_member_def get_link_def)

lemma contains_get_link: "contains F a n \<longleftrightarrow> get_link F a n \<noteq> None"
  by (simp add: contains_def get_link_def)

lemma getUUIDByAddress_shape:
  assumes "index_shape s d g"
  shows "getUUIDByAddress s a = Inr (map_of (attrs_of (dbfile s) g) (str_nat a))"
  using assms
  by (simp add: index_shape_def getUUIDByAddress_def the_dbGrp_def bind_e_def
      contains_get_link get_member_hard attr_get_def)

lemma grows_get_link:
  "grows F F' \<Longrightarrow> get_link F a n = Some l \<Longrightarrow> get_link F' a n = Some l"
  by (simp add: grows_def get_link_def)

lemma update_fresh: "k \<notin> fst ` set al \<Longrightarrow> AList.update k v al = al @ [(k, v)]"
  by (induction al) auto

lemma visit_shape:
  assumes sh: "index_shape s d g" and v: "visit s p a = Inr s'"
  shows "index_shape s' d g"
    and "attrs_of (dbfile s') d = attrs_of (dbfile s) d"
    and "(attrs_of (dbfile s') g = attrs_of (dbfile s) g \<and> clock s' = clock s) \<or>
         (attrs_of (dbfile s') g =
            AList.update (str_nat a) (uuid_str (clock s)) (attrs_of (dbfile s) g) \<and>
          clock s' = Suc (clock s))"
proof -
  have gr: "grows (dbfile s) (dbfile s')" using visit_grows [OF v] .
  have ro: "readonly s' = readonly s" using visit_readonly [OF v] .
  have dg: "dbGrp s' = dbGrp s" using visit_dbGrp [OF v] .
  show "index_shape s' d g"
    using sh gr ro dg
    by (auto simp: index_shape_def grows_def get_link_def split: option.splits link.splits)
  have "attrs_of (dbfile s') d = attrs_of (dbfile s) d \<and>
     ((attrs_of (dbfile s') g = attrs_of (dbfile s) g \<and> clock s' = clock s) \<or>
         (attrs_of (dbfile s') g =
            AList.update (str_nat a) (uuid_str (clock s)) (attrs_of (dbfile s) g) \<and>
          clock s' = Suc (clock s)))"
  proof (cases "readonly s")
    case True
    from sh True obtain q where q: "get_link (dbf s) d ''{paths}'' = Some (HardLink q)"
      "q < length (objs (dbf s))" "q \<noteq> g" "q \<noteq> d"
      by (auto simp: index_shape_def split: option.splits link.splits)
    from sh True have g: "get_member (dbf s) d ''{addr}'' = Inr g"
      by (simp add: index_shape_def get_member_hard)
    from q have qm: "get_member (dbf s) d ''{paths}'' = Inr q"
      by (simp add: get_member_hard)
    from sh have gd: "g \<noteq> d" by (simp add: index_shape_def)
    from visit_readonly_mode [OF v True] show ?thesis
      using True g qm q gd sh
      by (auto simp: attrs_of_attr_set index_shape_def)
  next
    case False
    from sh False have g: "get_member (f s) d ''{addr}'' = Inr g"
      by (simp add: index_shape_def get_member_hard)
    from sh have gd: "g \<noteq> d" by (simp add: index_shape_def)
    from visit_writable [OF v False] show ?thesis
      using False g gd sh
      by (auto simp: attrs_of_attr_set attrs_of_set_link index_shape_def)
  qed
  then show "attrs_of (dbfile s') d = attrs_of (dbfile s) d"
    and "(attrs_of (dbfile s') g = attrs_of (dbfile s) g \<and> clock s' = clock s) \<or>
         (attrs_of (dbfile s') g =
            AList.update (str_nat a) (uuid_str (clock s)) (attrs_of (dbfile s) g) \<and>
          clock s' = Suc (clock s))"
    by simp_all
qed

lemma addr_map_ok_step:
  assumes ok: "addr_map_ok s g vis" and a: "a \<notin> set vis"
    and A1: "(attrs_of (dbfile s') g = attrs_of (dbfile s) g \<and> clock s' = clock s) \<or>
         (attrs_of (dbfile s') g =
            AList.update (str_nat a) (uuid_str (clock s)) (attrs_of (dbfile s) g) \<and>
          clock s' = Suc (clock s))"
  shows "addr_map_ok s' g (a # vis)"
    and "map_of (attrs_of (dbfile s) g) k = Some u \<Longrightarrow> map_of (attrs_of (dbfile s') g) k = Some u"
    and "clock s \<le> clock s'"
proof -
  let ?A = "attrs_of (dbfile s) g"
  from ok have dk: "distinct (map fst ?A)" and dv: "distinct (map snd ?A)"
    and el: "\<And>k u. (k, u) \<in> set ?A \<Longrightarrow> k \<in> str_nat ` set vis \<and> u \<in> uuid_str ` {..<clock s}"
    by (auto simp: addr_map_ok_def Let_def)
  have fk: "str_nat a \<notin> fst ` set ?A"
  proof
    assume "str_nat a \<in> fst ` set ?A"
    then obtain u where "(str_nat a, u) \<in> set ?A" by auto
    from el [OF this] have "str_nat a \<in> str_nat ` set vis" by simp
    with a show False by (auto simp: str_nat_inj)
  qed
  have fv: "uuid_str (clock s) \<notin> snd ` set ?A"
  proof
    assume "uuid_str (clock s) \<in> snd ` set ?A"
    then obtain k where "(k, uuid_str (clock s)) \<in> set ?A" by auto
    from el [OF this] have "uuid_str (clock s) \<in> uuid_str ` {..<clock s}" by simp
    then show False by (auto simp: uuid_str_inj)
  qed
  have upd: "AList.update (str_nat a) (uuid_str (clock s)) ?A = ?A @ [(str_nat a, uuid_str (clock s))]"
    using fk by (rule update_fresh)
  from A1 show "clock s \<le> clock s'" by auto
  from A1 show "addr_map_ok s' g (a # vis)"
  proof
    assume "attrs_of (dbfile s') g = ?A \<and> clock s' = clock s"
    with dk dv el show ?thesis
      by (auto simp: addr_map_ok_def Let_def)
  next
    assume h: "attrs_of (dbfile s') g = AList.update (str_nat a) (uuid_str (clock s)) ?A \<and>
          clock s' = Suc (clock s)"
    have "\<And>k u. (k, u) \<in> set ?A \<Longrightarrow>
        k \<in> str_nat ` set (a # vis) \<and> u \<in> uuid_str ` {..<Suc (clock s)}"
      using el by (auto simp: lessThan_Suc)
    moreover have "uuid_str (clock s) \<in> uuid_str ` {..<Suc (clock s)}" by simp
    ultimately show ?thesis
      using h dk dv fk fv unfolding upd addr_map_ok_def Let_def
      by auto
  qed
  show "map_of (attrs_of (dbfile s') g) k = Some u" if m: "map_of ?A k = Some u"
    using A1
  proof
    assume "attrs_of (dbfile s') g = ?A \<and> clock s' = clock s"
    with m show ?thesis by simp
  next
    assume h: "attrs_of (dbfile s') g = AList.update (str_nat a) (uuid_str (clock s)) ?A \<and>
          clock s' = Suc (clock s)"
    with m show ?thesis unfolding upd by (simp add: map_add_def)
  qed
qed

lemma addr_map_ok_skip: "addr_map_ok s g vis \<Longrightarrow> addr_map_ok s g (a # vis)"
  by (auto simp: addr_map_ok_def Let_def)

lemma walk_addr_map:
  assumes "walk s w vis = Inr s'" and "index_shape s d g" and "addr_map_ok s g vis"
  shows "index_shape s' d g \<and> (\<exists>vis'. addr_map_ok s' g vis') \<and>
     (\<forall>k u. map_of (attrs_of (dbfile s) g) k = Some u \<longrightarrow>
            map_of (attrs_of (dbfile s') g) k = Some u) \<and>
     attrs_of (dbfile s') d = attrs_of (dbfile s) d \<and> clock s \<le> clock s'"
  using assms
proof (induction s w vis rule: walk.induct)
  case (1 s vis)
  then show ?case by auto
next
  case (2 s p a w vis)
  show ?case
  proof (cases "a \<in> set vis \<or> length (objs (f s)) \<le> a")
    case True
    with 2 show ?thesis by simp
  next
    case False
    with 2(3) obtain s1 where v: "visit s p a = Inr s1"
      and w: "walk s1 (hard_children (f s1) p a @ w) (a # vis) = Inr s'"
      by (auto split: sum.splits)
    from False have a: "a \<notin> set vis" by simp
    note vs = visit_shape [OF 2(4) v]
    note st = addr_map_ok_step [OF 2(5) a vs(3)]
    from 2(2) [OF False v w vs(1) st(1)]
    have ih: "index_shape s' d g" "\<exists>vis'. addr_map_ok s' g vis'"
      "\<And>k u. map_of (attrs_of (dbfile s1) g) k = Some u \<Longrightarrow>
            map_of (attrs_of (dbfile s') g) k = Some u"
      "attrs_of (dbfile s') d = attrs_of (dbfile s1) d" "clock s1 \<le> clock s'"
      by auto
    show ?thesis
      using ih vs(2) st(2,3) by auto
  qed
qed

lemma attrs_of_append_obj:
  "a < length (objs F) \<Longrightarrow> attrs_of (F\<lparr>objs := objs F @ [g]\<rparr>) a = attrs_of F a"
  by (simp add: attrs_of_def obj_at_def nth_append)

lemma create_group_attrs:
  assumes "create_group F a n = Inr (F', b)" and "x < length (objs F)"
  shows "attrs_of F' x = attrs_of F x"
proof -
  from assms(1) have sl: "set_link (F\<lparr>objs := objs F @ [new_group]\<rparr>) a n (HardLink b) = Inr F'"
    by (simp add: create_group_Inr)
  show ?thesis
    unfolding attrs_of_set_link [OF sl] using assms(2) by (rule attrs_of_append_obj)
qed

lemma db_create_group_attrs:
  assumes "db_create_group s d n = Inr s'" and "x < length (objs (dbfile s))"
  shows "attrs_of (dbfile s') x = attrs_of (dbfile s) x"
  using assms by (auto simp: db_create_group_Inr create_group_attrs)

lemma grows_length: "grows F F' \<Longrightarrow> length (objs F) \<le> length (objs F')"
  by (simp add: grows_def)

lemma init_index_shape:
  assumes i: "init_index s d = Inr s'" and dg: "dbGrp s = Some d"
  shows "\<exists>g. index_shape s' d g \<and> (\<exists>vis. addr_map_ok s' g vis)"
    and "attr_get (dbfile s') d ''rootUUID'' = Some (uuid_str (clock s))"
    and "contains (dbfile s') d ''{datasets}''"
    and "contains (dbfile s') d ''{datatypes}''"
    and "contains (dbfile s') d ''{addr}''"
    and "readonly s \<Longrightarrow> contains (dbfile s') d ''{paths}''"
proof -
  from i obtain D s2 s3 s4 s5 s6 where
    a: "attr_set (dbfile s) d ''rootUUID'' (uuid_str (clock s)) = Inr D" and
    c2: "db_create_group (set_dbfile (s\<lparr>clock := Suc (clock s)\<rparr>) D) d ''{groups}'' = Inr s2" and
    c3: "db_create_group s2 d ''{datasets}'' = Inr s3" and
    c4: "db_create_group s3 d ''{datatypes}'' = Inr s4" and
    c5: "db_create_group s4 d ''{addr}'' = Inr s5" and
    c6: "(if readonly s5 then db_create_group s5 d ''{paths}'' else Inr s5) = Inr s6" and
    v: "visititems s6 = Inr s'"
    unfolding init_index_Inr by blast
  let ?s1 = "set_dbfile (s\<lparr>clock := Suc (clock s)\<rparr>) D"
  note f2 = db_create_group_facts [OF c2]
  note f3 = db_create_group_facts [OF c3]
  note f4 = db_create_group_facts [OF c4]
  note f5 = db_create_group_facts [OF c5]
  have dD: "d < length (objs D)"
    using a length_attr_set [OF a] by (auto simp: attr_set_Inr dest: obj_at_Some_less)
  have len: "length (objs D) < length (objs (dbfile s2))"
    "length (objs (dbfile s2)) < length (objs (dbfile s3))"
    "length (objs (dbfile s3)) < length (objs (dbfile s4))"
    "length (objs (dbfile s4)) < length (objs (dbfile s5))"
    using f2(10) f3(10) f4(10) f5(10) by simp_all
  have ro: "readonly s5 = readonly s" "readonly s6 = readonly s"
    using f2(1) f3(1) f4(1) f5(1) c6 by (auto split: if_splits dest: db_create_group_facts(1))
  have dgs: "dbGrp s5 = Some d" "dbGrp s6 = Some d"
    using f2(2) f3(2) f4(2) f5(2) c6 dg by (auto split: if_splits dest: db_create_group_facts(2))
  have ck: "clock s6 = Suc (clock s)"
    using f2(3) f3(3) f4(3) f5(3) c6 by (auto split: if_splits dest: db_create_group_facts(3))
  define g where "g = length (objs (dbfile s4))"
  have g5: "get_link (dbfile s5) d ''{addr}'' = Some (HardLink g)"
    using f5(9) by (simp add: g_def get_link_def)
  have gl5: "g < length (objs (dbfile s5))" using len by (simp add: g_def)
  have gd: "g \<noteq> d" using dD len by (simp add: g_def)
  have ga5: "attrs_of (dbfile s5) g = []" using f5(12) by (simp add: g_def)
  have gr56: "grows (dbfile s5) (dbfile s6)"
    using c6 by (auto split: if_splits simp: grows_refl dest: db_create_group_facts(6))
  have g6: "get_link (dbfile s6) d ''{addr}'' = Some (HardLink g)"
    using grows_get_link [OF gr56 g5] .
  have gl6: "g < length (objs (dbfile s6))"
    using gl5 grows_length [OF gr56] by simp
  have ga6: "attrs_of (dbfile s6) g = []"
    using c6 ga5 gl5 by (auto split: if_splits simp: db_create_group_attrs)
  have p6: "case get_link (dbfile s6) d ''{paths}'' of
           Some (HardLink p) \<Rightarrow> p < length (objs (dbfile s6)) \<and> p \<noteq> g \<and> p \<noteq> d
         | _ \<Rightarrow> False" if "readonly s"
  proof -
    from that ro c6 have c: "db_create_group s5 d ''{paths}'' = Inr s6" by simp
    note f6 = db_create_group_facts [OF c]
    show ?thesis
      using f6(9,10) gl5 dD len by (simp add: get_link_def)
  qed
  have sh6: "index_shape s6 d g"
    using dgs g6 gl6 gd p6 ro by (simp add: index_shape_def)
  have ok6: "addr_map_ok s6 g [0]"
    using ga6 by (simp add: addr_map_ok_def)
  have w: "walk s6 (hard_children (f s6) [] 0) [0] = Inr s'"
    using v by (simp add: visititems_def)
  note wa = walk_addr_map [OF w sh6 ok6]
  from wa show "\<exists>g. index_shape s' d g \<and> (\<exists>vis. addr_map_ok s' g vis)" by blast
  have "attrs_of D d = AList.update ''rootUUID'' (uuid_str (clock s)) (attrs_of (dbfile s) d)"
    using attrs_of_attr_set [OF a] by simp
  then have "map_of (attrs_of D d) ''rootUUID'' = Some (uuid_str (clock s))"
    by (simp add: update_conv')
  moreover have "attrs_of (dbfile s6) d = attrs_of D d"
  proof -
    have "attrs_of (dbfile s2) d = attrs_of D d"
      using db_create_group_attrs [OF c2] dD by simp
    moreover have "attrs_of (dbfile s3) d = attrs_of (dbfile s2) d"
      using db_create_group_attrs [OF c3] dD len by simp
    moreover have "attrs_of (dbfile s4) d = attrs_of (dbfile s3) d"
      using db_create_group_attrs [OF c4] dD len by simp
    moreover have "attrs_of (dbfile s5) d = attrs_of (dbfile s4) d"
      using db_create_group_attrs [OF c5] dD len by simp
    moreover have "attrs_of (dbfile s6) d = attrs_of (dbfile s5) d"
      using c6 dD len by (auto split: if_splits simp: db_create_group_attrs)
    ultimately show ?thesis by simp
  qed
  ultimately show "attr_get (dbfile s') d ''rootUUID'' = Some (uuid_str (clock s))"
    using wa by (simp add: attr_get_def)
  have gr6: "grows (dbfile s6) (dbfile s')"
    using visititems_facts(3) [OF v] .
  have gr36: "grows (dbfile s3) (dbfile s6)" and gr46: "grows (dbfile s4) (dbfile s6)"
    using f4(6) f5(6) gr56 by (blast intro: grows_trans)+
  have l3: "get_link (dbfile s3) d ''{datasets}'' \<noteq> None"
    and l4: "get_link (dbfile s4) d ''{datatypes}'' \<noteq> None"
    using f3(9) f4(9) by (simp_all add: get_link_def)
  from l3 show "contains (dbfile s') d ''{datasets}''"
    using grows_get_link [OF grows_trans [OF gr36 gr6]] by (auto simp: contains_get_link)
  from l4 show "contains (dbfile s') d ''{datatypes}''"
    using grows_get_link [OF grows_trans [OF gr46 gr6]] by (auto simp: contains_get_link)
  show "contains (dbfile s') d ''{addr}''"
    using grows_get_link [OF gr6 g6] by (simp add: contains_get_link)
  show "contains (dbfile s') d ''{paths}''" if "readonly s"
    using p6 [OF that] grows_get_link [OF gr6, of d "''{paths}''"]
    by (auto simp: contains_get_link split: option.splits)
qed

section \<open>Path lookup of an unknown path\<close>

text \<open>
  Claim C4, as the code has it. For a path that is not \<^verbatim>\<open>/\<close>, does not start with
  \<^verbatim>\<open>__db__\<close> and does not resolve in the container once the index is initialised,
  \<^verbatim>\<open>getUUIDByPath\<close> does not return an absence: \<^verbatim>\<open>self.f[path]\<close> raises \<^verbatim>\<open>KeyError\<close>
  (``will throw KeyError if object doesn't exist''), and the exception leaves the method.
\<close>

theorem getUUIDByPath_unresolved_raises:
  assumes "initFile s = Inr s'"
    and "\<not> is_db_path path"
    and "path \<noteq> ''/''"
    and "getitem (f s') 0 path = Inl KeyError"
  shows "getUUIDByPath s path = Inl KeyError"
  using assms by (simp add: getUUIDByPath_def bind_e_def)

theorem getUUIDByPath_unresolved_raises_witness:
  "(\<exists>s'. initFile (open_ro ex_tree) = Inr s' \<and> getitem (f s') 0 ''b/nothing'' = Inl KeyError)
   \<and> \<not> is_db_path ''b/nothing'' \<and> ''b/nothing'' \<noteq> ''/''
   \<and> getUUIDByPath (open_ro ex_tree) ''b/nothing'' = Inl KeyError"
proof -
  have "case initFile (open_ro ex_tree) of Inl e \<Rightarrow> False
        | Inr s' \<Rightarrow> getitem (f s') 0 ''b/nothing'' = Inl KeyError"
    by code_simp
  then obtain s' where 1: "initFile (open_ro ex_tree) = Inr s'"
    and 2: "getitem (f s') 0 ''b/nothing'' = Inl KeyError"
    by (cases "initFile (open_ro ex_tree)") auto
  have 3: "\<not> is_db_path ''b/nothing''" by (simp add: is_db_path_def)
  have 4: "''b/nothing'' \<noteq> ''/''" by simp
  show ?thesis
    using getUUIDByPath_unresolved_raises [OF 1 3 4 2] 1 2 3 4 by blast
qed

text \<open>The claim as stated, that the lookup reports an absence and does not raise, fails
  on the writable example container at the path \<^verbatim>\<open>/a/missing\<close>.\<close>

theorem getUUIDByPath_missing_counterexample:
  "getUUIDByPath (open_rw ex_tree) ''/a/missing'' = Inl KeyError"
  by code_simp

section \<open>Listing the children of a group\<close>

text \<open>
  Claim C6, evaluated at a failing input. The root of the example container has the
  external link \<^verbatim>\<open>c\<close>; listing the root without a filter does not return: the
  external-link branch reads \<^verbatim>\<open>typeFilter\<close>, which is bound nowhere, and the
  \<^verbatim>\<open>NameError\<close> ends the listing.
\<close>

theorem getItems_external_link_raises:
  "getItems (open_rw ex_external) ''uuid-0'' None None 0 = Inl NameError"
  by code_simp

text \<open>
  Claim C7, evaluated at a failing input. The only child of the root has a link of a
  class that is none of hard, symbolic and external. The listing does not skip it and go
  on: asking the engine for the link object raises \<^verbatim>\<open>TypeError\<close>, nothing in
  \<^verbatim>\<open>getItems\<close> handles it, and the branch that logs and skips is not reached.
\<close>

theorem getItems_unknown_link_raises:
  "getItems (open_rw ex_unknown) ''uuid-0'' None None 0 = Inl TypeError"
  by code_simp

text \<open>
  Claim C5, evaluated at a failing input. The root has the children \<^verbatim>\<open>[a,b,c,d,e]\<close> in
  native order and \<^verbatim>\<open>c\<close> is an external link; the page after the marker \<^verbatim>\<open>b\<close> with
  limit 2 is not returned, since building the descriptor of \<^verbatim>\<open>c\<close> raises \<^verbatim>\<open>NameError\<close>.
\<close>

theorem getItems_page_external_raises:
  "getItems (open_rw ex_external) ''uuid-0'' None (Some ''b'') 2 = Inl NameError"
  by code_simp

section \<open>Initialising the index\<close>

text \<open>
  Claim C1, as the code has it. \<^verbatim>\<open>initFile\<close> takes the index for initialised when the
  root of a writable container has the member \<^verbatim>\<open>__db__\<close>, or the shadow file of a
  read-only container has the member \<^verbatim>\<open>{groups}\<close> (\<open>index_present\<close>). Whenever a call
  completes: if the index was present, nothing but the status fields and the handle of the
  index root has changed; the index is present afterwards, and a second call completes and
  changes nothing but the status fields, so both files are as they were; if the index was
  not present, the index root now carries the new UUID as \<^verbatim>\<open>rootUUID\<close>, holds the
  collections of the mode, and the state is the one the traversal of the container left.
\<close>

theorem initFile_idempotent:
  assumes "initFile s = Inr s'"
  shows "(index_present s \<longrightarrow>
            s' = s\<lparr>httpStatus := 200, httpMessage := None, dbGrp := dbGrp s'\<rparr>) \<and>
         index_present s' \<and>
         initFile s' = Inr (s'\<lparr>httpStatus := 200, httpMessage := None\<rparr>) \<and>
         (\<not> index_present s \<longrightarrow>
            (\<exists>d. dbGrp s' = Some d \<and>
                 attr_get (dbfile s') d ''rootUUID'' = Some (uuid_str (clock s)) \<and>
                 contains (dbfile s') d ''{groups}'' \<and>
                 contains (dbfile s') d ''{datasets}'' \<and>
                 contains (dbfile s') d ''{datatypes}'' \<and>
                 contains (dbfile s') d ''{addr}'' \<and>
                 (readonly s \<longrightarrow> contains (dbfile s') d ''{paths}'') \<and>
                 (\<exists>t. visititems t = Inr s')))"
proof (intro conjI impI)
  show "index_present s'" by (rule initFile_facts(4) [OF assms])
  show "initFile s' = Inr (s'\<lparr>httpStatus := 200, httpMessage := None\<rparr>)"
    by (rule initFile_again [OF assms])
next
  assume p: "index_present s"
  show "s' = s\<lparr>httpStatus := 200, httpMessage := None, dbGrp := dbGrp s'\<rparr>"
    using assms unfolding initFile_present [OF p]
    by (auto simp: bind_e_Inr split: if_splits)
next
  assume np: "\<not> index_present s"
  let ?t = "s\<lparr>httpStatus := 200, httpMessage := None, dbGrp := Some 0\<rparr>"
  show "\<exists>d. dbGrp s' = Some d \<and>
                 attr_get (dbfile s') d ''rootUUID'' = Some (uuid_str (clock s)) \<and>
                 contains (dbfile s') d ''{groups}'' \<and>
                 contains (dbfile s') d ''{datasets}'' \<and>
                 contains (dbfile s') d ''{datatypes}'' \<and>
                 contains (dbfile s') d ''{addr}'' \<and>
                 (readonly s \<longrightarrow> contains (dbfile s') d ''{paths}'') \<and>
                 (\<exists>t. visititems t = Inr s')"
  proof (cases "readonly s")
    case True
    from assms np True have i: "init_index ?t 0 = Inr s'"
      by (simp add: initFile_absent)
    have v: "\<exists>t. visititems t = Inr s'"
      using i unfolding init_index_Inr by blast
    have dg: "dbGrp ?t = Some 0" by simp
    from init_index_facts(2,5) [OF i] init_index_shape(2-6) [OF i dg] v True
    show ?thesis by simp
  next
    case False
    from assms np False obtain F d where
      i: "init_index (s\<lparr>httpStatus := 200, httpMessage := None, f := F, dbGrp := Some d\<rparr>) d = Inr s'"
      by (auto simp: initFile_absent bind_e_Inr)
    let ?u = "s\<lparr>httpStatus := 200, httpMessage := None, f := F, dbGrp := Some d\<rparr>"
    have v: "\<exists>t. visititems t = Inr s'"
      using i unfolding init_index_Inr by blast
    have dg: "dbGrp ?u = Some d" by simp
    from init_index_facts(2,5) [OF i] init_index_shape(2-5) [OF i dg] v False
    show ?thesis by simp
  qed
qed

theorem initFile_idempotent_witness:
  "(\<exists>s'. initFile (open_ro ex_tree) = Inr s' \<and> \<not> index_present (open_ro ex_tree) \<and>
         index_present s' \<and>
         initFile s' = Inr (s'\<lparr>httpStatus := 200, httpMessage := None\<rparr>) \<and>
         dbGrp s' = Some 0 \<and> attr_get (dbfile s') 0 ''rootUUID'' = Some ''uuid-0'' \<and>
         contains (dbfile s') 0 ''{paths}'') \<and>
   initFile ex_indexing = Inr ex_indexing \<and> index_present ex_indexing"
proof -
  have "case initFile (open_ro ex_tree) of Inl e \<Rightarrow> False
        | Inr s' \<Rightarrow> dbGrp s' = Some 0 \<and> attr_get (dbfile s') 0 ''rootUUID'' = Some ''uuid-0'' \<and>
            contains (dbfile s') 0 ''{paths}''"
    by code_simp
  then obtain s' where 1: "initFile (open_ro ex_tree) = Inr s'"
    and 2: "dbGrp s' = Some 0" "attr_get (dbfile s') 0 ''rootUUID'' = Some ''uuid-0''"
      "contains (dbfile s') 0 ''{paths}''"
    by (cases "initFile (open_ro ex_tree)") auto
  have 3: "\<not> index_present (open_ro ex_tree)" by code_simp
  have 4: "initFile ex_indexing = Inr ex_indexing" by code_simp
  have 5: "index_present ex_indexing" by code_simp
  from initFile_idempotent [OF 1] initFile_idempotent [OF 4] 1 2 3 4 5
  show ?thesis by blast
qed

text \<open>The claim as stated takes a writable container for initialised when its index
  root holds the group-links collection. The root of this container has a group
  \<^verbatim>\<open>__db__\<close> without one; \<^verbatim>\<open>initFile\<close> returns at once all the same, and creates
  neither a root identity nor a collection.\<close>

theorem initFile_detection_counterexample:
  "\<not> contains ex_bare_db 1 ''{groups}'' \<and>
   initFile (open_rw ex_bare_db) = Inr ((open_rw ex_bare_db)\<lparr>dbGrp := Some 1\<rparr>)"
  by code_simp

section \<open>The address map built by the traversal\<close>

lemma one_to_one_lookup:
  assumes "distinct (map snd A)" and "map_of A k = Some u" and "map_of A k' = Some u"
  shows "k = k'"
proof -
  from assms(2,3) have "(k, u) \<in> set A" "(k', u) \<in> set A"
    by (auto dest: map_of_SomeD)
  moreover from assms(1) have "inj_on snd (set A)"
    by (simp add: distinct_map)
  ultimately have "(k, u) = (k', u)"
    by (intro inj_onD [of snd "set A"]) simp_all
  then show ?thesis by simp
qed

text \<open>
  Claim C2. The traversal is \<open>walk\<close>, calling \<^verbatim>\<open>visit\<close>; it runs on an index of the shape
  \<^verbatim>\<open>initFile\<close> has just created, from any point: \<open>vis\<close> are the addresses seen so far
  and the address map has entries for such addresses only. When the traversal completes,
  every address that was mapped still has the UUID it had (no entry is reassigned), and
  the final map is one-to-one: no UUID is returned by \<^verbatim>\<open>getUUIDByAddress\<close> for two
  addresses.
\<close>

theorem traversal_address_map_one_to_one:
  assumes "index_shape s d g" and "addr_map_ok s g vis" and "walk s w vis = Inr s'"
  shows "(\<forall>a u. getUUIDByAddress s a = Inr (Some u) \<longrightarrow>
                getUUIDByAddress s' a = Inr (Some u)) \<and>
         (\<forall>a b u. getUUIDByAddress s' a = Inr (Some u) \<and>
                  getUUIDByAddress s' b = Inr (Some u) \<longrightarrow> a = b)"
proof -
  note wa = walk_addr_map [OF assms(3,1,2)]
  from wa have sh': "index_shape s' d g" by simp
  from wa obtain vis' where ok': "addr_map_ok s' g vis'" by blast
  have dv: "distinct (map snd (attrs_of (dbfile s') g))"
    using ok' by (simp add: addr_map_ok_def Let_def)
  show ?thesis
  proof (intro conjI allI impI)
    fix a u
    assume "getUUIDByAddress s a = Inr (Some u)"
    then have "map_of (attrs_of (dbfile s) g) (str_nat a) = Some u"
      by (simp add: getUUIDByAddress_shape [OF assms(1)])
    with wa have "map_of (attrs_of (dbfile s') g) (str_nat a) = Some u" by blast
    then show "getUUIDByAddress s' a = Inr (Some u)"
      by (simp add: getUUIDByAddress_shape [OF sh'])
  next
    fix a b u
    assume "getUUIDByAddress s' a = Inr (Some u) \<and> getUUIDByAddress s' b = Inr (Some u)"
    then have "map_of (attrs_of (dbfile s') g) (str_nat a) = Some u"
      "map_of (attrs_of (dbfile s') g) (str_nat b) = Some u"
      by (simp_all add: getUUIDByAddress_shape [OF sh'])
    from one_to_one_lookup [OF dv this] show "a = b"
      by (simp add: str_nat_inj)
  qed
qed

theorem traversal_address_map_one_to_one_witness:
  "index_shape ex_indexing 5 9 \<and> addr_map_ok ex_indexing 9 [0] \<and>
   (\<exists>s'. walk ex_indexing (hard_children (f ex_indexing) [] 0) [0] = Inr s' \<and>
         getUUIDByAddress s' 1 = Inr (Some ''uuid-1'') \<and>
         getUUIDByAddress s' 2 = Inr (Some ''uuid-3'') \<and>
         getUUIDByAddress s' 3 \<noteq> Inr (Some ''uuid-1''))"
proof -
  have 1: "index_shape ex_indexing 5 9" by code_simp
  have 2: "addr_map_ok ex_indexing 9 [0]" by code_simp
  have "case walk ex_indexing (hard_children (f ex_indexing) [] 0) [0] of Inl e \<Rightarrow> False
        | Inr s' \<Rightarrow> getUUIDByAddress s' 1 = Inr (Some ''uuid-1'') \<and>
            getUUIDByAddress s' 2 = Inr (Some ''uuid-3'')"
    by code_simp
  then obtain s' where 3: "walk ex_indexing (hard_children (f ex_indexing) [] 0) [0] = Inr s'"
    and 4: "getUUIDByAddress s' 1 = Inr (Some ''uuid-1'')"
      "getUUIDByAddress s' 2 = Inr (Some ''uuid-3'')"
    by (cases "walk ex_indexing (hard_children (f ex_indexing) [] 0) [0]") auto
  from traversal_address_map_one_to_one [OF 1 2 3] 4(1)
  have "getUUIDByAddress s' 3 \<noteq> Inr (Some ''uuid-1'')"
    by fastforce
  with 1 2 3 4 show ?thesis by blast
qed

text \<open>The same for a whole first initialisation: after \<^verbatim>\<open>initFile\<close> has built the index
  of a container that had none, the address map is one-to-one.\<close>

lemma initFile_address_map_one_to_one:
  assumes "\<not> index_present s" and "initFile s = Inr s'"
    and "getUUIDByAddress s' a = Inr (Some u)" and "getUUIDByAddress s' b = Inr (Some u)"
  shows "a = b"
proof -
  have "\<exists>d g. index_shape s' d g \<and> (\<exists>vis. addr_map_ok s' g vis)"
  proof (cases "readonly s")
    case True
    let ?t = "s\<lparr>httpStatus := 200, httpMessage := None, dbGrp := Some 0\<rparr>"
    from assms(1,2) True have i: "init_index ?t 0 = Inr s'"
      by (simp add: initFile_absent)
    have dg: "dbGrp ?t = Some 0" by simp
    from init_index_shape(1) [OF i dg] show ?thesis by blast
  next
    case False
    from assms(1,2) False obtain F d where
      i: "init_index (s\<lparr>httpStatus := 200, httpMessage := None, f := F, dbGrp := Some d\<rparr>) d = Inr s'"
      by (auto simp: initFile_absent bind_e_Inr)
    have dg: "dbGrp (s\<lparr>httpStatus := 200, httpMessage := None, f := F, dbGrp := Some d\<rparr>) = Some d"
      by simp
    from init_index_shape(1) [OF i dg] show ?thesis by blast
  qed
  then obtain d g vis where sh: "index_shape s' d g" and ok: "addr_map_ok s' g vis" by blast
  have dv: "distinct (map snd (attrs_of (dbfile s') g))"
    using ok by (simp add: addr_map_ok_def Let_def)
  from assms(3,4) have "map_of (attrs_of (dbfile s') g) (str_nat a) = Some u"
    "map_of (attrs_of (dbfile s') g) (str_nat b) = Some u"
    by (simp_all add: getUUIDByAddress_shape [OF sh])
  from one_to_one_lookup [OF dv this] show "a = b"
    by (simp add: str_nat_inj)
qed

section \<open>Listing with a marker that is no child\<close>

lemma items_loop_marker_absent:
  assumes "m \<notin> set ks"
  shows "items_loop s g cf (Some m) lim ks False n oc items = Inr items"
  using assms by (induction ks) auto

text \<open>
  Claim C9. When the group resolves and the marker is the name of none of its children,
  the listing is the empty list: not an error, and not \<^verbatim>\<open>None\<close>.
\<close>

theorem getItems_marker_not_a_child:
  assumes "initFile s = Inr s1"
    and "getGroupByUuid s1 grpUuid = Inr (s2, Some g)"
    and "m \<notin> set (names_of (f s2) g)"
  shows "getItems s grpUuid classFilter (Some m) limit = Inr (s2, Some [])"
  using assms
  by (simp add: getItems_def bind_e_def items_loop_marker_absent)

theorem getItems_marker_not_a_child_witness:
  "\<exists>s1 s2 g. initFile (open_rw ex_tree) = Inr s1 \<and>
      getGroupByUuid s1 ''uuid-1'' = Inr (s2, Some g) \<and>
      ''nosuch'' \<notin> set (names_of (f s2) g) \<and>
      getItems (open_rw ex_tree) ''uuid-1'' None (Some ''nosuch'') 0 = Inr (s2, Some [])"
proof -
  have "case initFile (open_rw ex_tree) of Inl e \<Rightarrow> False
        | Inr s1 \<Rightarrow> (case getGroupByUuid s1 ''uuid-1'' of
              Inr (s2, Some g) \<Rightarrow> ''nosuch'' \<notin> set (names_of (f s2) g)
            | _ \<Rightarrow> False)"
    by code_simp
  then obtain s1 s2 g where 1: "initFile (open_rw ex_tree) = Inr s1"
    and 2: "getGroupByUuid s1 ''uuid-1'' = Inr (s2, Some g)"
    and 3: "''nosuch'' \<notin> set (names_of (f s2) g)"
    by (auto split: sum.splits prod.splits option.splits)
  from getItems_marker_not_a_child [OF 1 2 3] 1 2 3 show ?thesis by blast
qed

section \<open>Linking in a read-only container\<close>

text \<open>
  Claim C8, as the code has it. On a read-only manager \<^verbatim>\<open>linkObject\<close> first runs
  \<^verbatim>\<open>initFile\<close>. When the index is present already, the call returns \<^verbatim>\<open>False\<close> with
  status 403 and changes neither file. In any case, when the call returns it returns
  \<^verbatim>\<open>False\<close> with status 403 and the source container is what it was; the shadow file
  is what \<^verbatim>\<open>initFile\<close> made of it.
\<close>

theorem linkObject_readonly:
  assumes "readonly s"
  shows "(index_present s \<longrightarrow>
            linkObject s parentUUID childUUID linkName =
              Inr (s\<lparr>httpStatus := 403, httpMessage := Some ''Updates are not allowed'',
                     dbGrp := Some 0\<rparr>, False)) \<and>
         (\<forall>s' r. linkObject s parentUUID childUUID linkName = Inr (s', r) \<longrightarrow>
            \<not> r \<and> httpStatus s' = 403 \<and> httpMessage s' = Some ''Updates are not allowed'' \<and>
            f s' = f s \<and> (\<exists>s1. initFile s = Inr s1 \<and> dbf s' = dbf s1))"
proof (intro conjI impI allI)
  assume p: "index_present s"
  show "linkObject s parentUUID childUUID linkName =
              Inr (s\<lparr>httpStatus := 403, httpMessage := Some ''Updates are not allowed'',
                     dbGrp := Some 0\<rparr>, False)"
    using assms by (simp add: linkObject_def initFile_present [OF p] bind_e_def)
next
  fix s' r
  assume l: "linkObject s parentUUID childUUID linkName = Inr (s', r)"
  then obtain s1 where i: "initFile s = Inr s1"
    by (auto simp: linkObject_def bind_e_Inr)
  have ro: "readonly s1" using initFile_facts(1) [OF i] assms by simp
  from l i ro have s': "s' = s1\<lparr>httpStatus := 403, httpMessage := Some ''Updates are not allowed''\<rparr>"
    and r: "\<not> r"
    by (simp_all add: linkObject_def bind_e_def)
  show "\<not> r" by fact
  show "httpStatus s' = 403" "httpMessage s' = Some ''Updates are not allowed''"
    by (simp_all add: s')
  show "f s' = f s" using initFile_facts(2) [OF i assms] by (simp add: s')
  show "\<exists>s1. initFile s = Inr s1 \<and> dbf s' = dbf s1" using i by (simp add: s')
qed

theorem linkObject_readonly_witness:
  "readonly (open_ro ex_tree) \<and>
   (\<exists>s' r. linkObject (open_ro ex_tree) ''uuid-1'' ''uuid-2'' ''n'' = Inr (s', r) \<and>
      \<not> r \<and> httpStatus s' = 403 \<and> f s' = f (open_ro ex_tree)) \<and>
   readonly ex_ro_indexed \<and> index_present ex_ro_indexed \<and>
   linkObject ex_ro_indexed ''uuid-1'' ''uuid-2'' ''n'' =
     Inr (ex_ro_indexed\<lparr>httpStatus := 403, httpMessage := Some ''Updates are not allowed'',
            dbGrp := Some 0\<rparr>, False)"
proof -
  have 1: "readonly (open_ro ex_tree)" by (simp add: open_ro_def)
  have "case linkObject (open_ro ex_tree) ''uuid-1'' ''uuid-2'' ''n'' of Inl e \<Rightarrow> False
        | Inr x \<Rightarrow> True"
    by code_simp
  then obtain s' r where 2: "linkObject (open_ro ex_tree) ''uuid-1'' ''uuid-2'' ''n'' = Inr (s', r)"
    by (auto split: sum.splits)
  have 3: "readonly ex_ro_indexed" by (simp add: ex_ro_indexed_def)
  have 4: "index_present ex_ro_indexed" by code_simp
  from linkObject_readonly [OF 1, of "''uuid-1''" "''uuid-2''" "''n''"] 2
  have 5: "\<not> r \<and> httpStatus s' = 403 \<and> f s' = f (open_ro ex_tree)"
    by blast
  from linkObject_readonly [OF 3, of "''uuid-1''" "''uuid-2''" "''n''"] 4
  have 6: "linkObject ex_ro_indexed ''uuid-1'' ''uuid-2'' ''n'' =
     Inr (ex_ro_indexed\<lparr>httpStatus := 403, httpMessage := Some ''Updates are not allowed'',
            dbGrp := Some 0\<rparr>, False)"
    by blast
  from 1 2 3 4 5 6 show ?thesis by blast
qed

text \<open>The claim as stated, that the call leaves the shadow container as it was, fails
  on a read-only manager that has not built its index yet: the call builds it, in the
  shadow file.\<close>

theorem linkObject_readonly_counterexample:
  "map_sum id (\<lambda>(s', r). dbf s' = dbf (open_ro ex_tree))
     (linkObject (open_ro ex_tree) ''uuid-1'' ''uuid-2'' ''n'') = Inr False"
  by code_simp

section \<open>What deleting a group returns\<close>

lemma getGroupByUuid_found_status:
  assumes "initFile s = Inr s1" and "getGroupByUuid s1 u = Inr (s2, Some g)"
  shows "httpStatus s2 = 200"
  using assms(2) initFile_again [OF assms(1)]
  by (auto simp: getGroupByUuid_def bind_e_Inr split: if_splits)

lemma getGroupByUuid_missing_status:
  assumes "getGroupByUuid s1 u = Inr (s2, None)"
  shows "httpStatus s2 = 404"
  using assms
  by (auto simp: getGroupByUuid_def bind_e_Inr not_found_def split: if_splits)

text \<open>
  Claim C10. Whenever \<^verbatim>\<open>deleteGroup\<close> returns, the value is never \<^verbatim>\<open>True\<close>. On the three
  failure paths (read-only container, the UUID of the root group, a UUID that resolves to
  no group) it is \<^verbatim>\<open>False\<close>, with status 403, 403 and 404; on the path that deletes the
  group it is \<^verbatim>\<open>None\<close>, with status 200. So the value is false in a condition either
  way, and only the status tells the paths apart.
\<close>

theorem deleteGroup_result_falsy:
  assumes "deleteGroup s objUuid = Inr (s', r)" and "initFile s = Inr s1"
  shows "r \<noteq> Some True \<and>
         (readonly s1 \<longrightarrow> r = Some False \<and> httpStatus s' = 403) \<and>
         (\<not> readonly s1 \<and> db_attr s1 ''rootUUID'' = Inr objUuid \<longrightarrow>
            r = Some False \<and> httpStatus s' = 403) \<and>
         (\<not> readonly s1 \<and> db_attr s1 ''rootUUID'' \<noteq> Inr objUuid \<and>
          (\<exists>s2. getGroupByUuid s1 objUuid = Inr (s2, None)) \<longrightarrow>
            r = Some False \<and> httpStatus s' = 404) \<and>
         (\<not> readonly s1 \<and> db_attr s1 ''rootUUID'' \<noteq> Inr objUuid \<and>
          (\<exists>s2 g. getGroupByUuid s1 objUuid = Inr (s2, Some g)) \<longrightarrow>
            r = None \<and> httpStatus s' = 200)"
proof (cases "readonly s1")
  case True
  with assms show ?thesis
    by (auto simp: deleteGroup_def bind_e_def)
next
  case rw: False
  from assms rw obtain root where root: "db_attr s1 ''rootUUID'' = Inr root"
    by (auto simp: deleteGroup_def bind_e_Inr)
  show ?thesis
  proof (cases "objUuid = root")
    case True
    with assms rw root show ?thesis
      by (auto simp: deleteGroup_def bind_e_def)
  next
    case False
    from assms rw root False obtain s2 tgt where
      g: "getGroupByUuid s1 objUuid = Inr (s2, tgt)"
      by (auto simp: deleteGroup_def bind_e_Inr)
    show ?thesis
    proof (cases tgt)
      case None
      with assms rw root False g getGroupByUuid_missing_status [of s1 objUuid s2]
      show ?thesis
        by (auto simp: deleteGroup_def bind_e_def)
    next
      case (Some t)
      from getGroupByUuid_found_status [OF assms(2)] g Some
      have st: "httpStatus s2 = 200" by simp
      from assms rw root False g Some st show ?thesis
        by (auto simp: deleteGroup_def bind_e_Inr)
    qed
  qed
qed

theorem deleteGroup_result_falsy_witness:
  "(\<exists>s'. deleteGroup ex_ro_indexed ''uuid-5'' = Inr (s', Some False) \<and> httpStatus s' = 403) \<and>
   (\<exists>s'. deleteGroup ex_indexing ''uuid-0'' = Inr (s', Some False) \<and> httpStatus s' = 403) \<and>
   (\<exists>s'. deleteGroup ex_indexing ''uuid-7'' = Inr (s', Some False) \<and> httpStatus s' = 404) \<and>
   (\<exists>s'. deleteGroup (open_rw ex_tree) ''uuid-1'' = Inr (s', None) \<and> httpStatus s' = 200)"
proof -
  have a1: "initFile ex_ro_indexed = Inr (ex_ro_indexed\<lparr>dbGrp := Some 0\<rparr>)" by code_simp
  have "case deleteGroup ex_ro_indexed ''uuid-5'' of Inl e \<Rightarrow> False | Inr x \<Rightarrow> True"
    by code_simp
  then obtain s' r where a2: "deleteGroup ex_ro_indexed ''uuid-5'' = Inr (s', r)"
    by (auto split: sum.splits)
  have a3: "readonly (ex_ro_indexed\<lparr>dbGrp := Some 0\<rparr>)" by (simp add: ex_ro_indexed_def)
  from deleteGroup_result_falsy [OF a2 a1] a3 a2
  have A: "\<exists>s'. deleteGroup ex_ro_indexed ''uuid-5'' = Inr (s', Some False) \<and> httpStatus s' = 403"
    by blast
  have b1: "initFile ex_indexing = Inr ex_indexing" by code_simp
  have "case deleteGroup ex_indexing ''uuid-0'' of Inl e \<Rightarrow> False | Inr x \<Rightarrow> True"
    by code_simp
  then obtain s' r where b2: "deleteGroup ex_indexing ''uuid-0'' = Inr (s', r)"
    by (auto split: sum.splits)
  have b3: "\<not> readonly ex_indexing \<and> db_attr ex_indexing ''rootUUID'' = Inr ''uuid-0''"
    by code_simp
  from deleteGroup_result_falsy [OF b2 b1] b3 b2
  have B: "\<exists>s'. deleteGroup ex_indexing ''uuid-0'' = Inr (s', Some False) \<and> httpStatus s' = 403"
    by blast
  have "case deleteGroup ex_indexing ''uuid-7'' of Inl e \<Rightarrow> False | Inr x \<Rightarrow> True"
    by code_simp
  then obtain s' r where c2: "deleteGroup ex_indexing ''uuid-7'' = Inr (s', r)"
    by (auto split: sum.splits)
  have c3: "\<not> readonly ex_indexing \<and> db_attr ex_indexing ''rootUUID'' \<noteq> Inr ''uuid-7''"
    by code_simp
  have "case getGroupByUuid ex_indexing ''uuid-7'' of Inr (s2, None) \<Rightarrow> True | _ \<Rightarrow> False"
    by code_simp
  then have c4: "\<exists>s2. getGroupByUuid ex_indexing ''uuid-7'' = Inr (s2, None)"
    by (auto split: sum.splits prod.splits option.splits)
  from deleteGroup_result_falsy [OF c2 b1] c3 c4 c2
  have C: "\<exists>s'. deleteGroup ex_indexing ''uuid-7'' = Inr (s', Some False) \<and> httpStatus s' = 404"
    by blast
  have "case initFile (open_rw ex_tree) of Inl e \<Rightarrow> False
        | Inr s1 \<Rightarrow> \<not> readonly s1 \<and> db_attr s1 ''rootUUID'' \<noteq> Inr ''uuid-1'' \<and>
            (case getGroupByUuid s1 ''uuid-1'' of Inr (s2, Some g) \<Rightarrow> True | _ \<Rightarrow> False)"
    by code_simp
  then obtain s1 where d1: "initFile (open_rw ex_tree) = Inr s1"
    and d3: "\<not> readonly s1 \<and> db_attr s1 ''rootUUID'' \<noteq> Inr ''uuid-1''"
    and d4: "\<exists>s2 g. getGroupByUuid s1 ''uuid-1'' = Inr (s2, Some g)"
    by (auto split: sum.splits prod.splits option.splits)
  have "case deleteGroup (open_rw ex_tree) ''uuid-1'' of Inl e \<Rightarrow> False | Inr x \<Rightarrow> True"
    by code_simp
  then obtain s' r where d2: "deleteGroup (open_rw ex_tree) ''uuid-1'' = Inr (s', r)"
    by (auto split: sum.splits)
  from deleteGroup_result_falsy [OF d2 d1] d3 d4 d2
  have D: "\<exists>s'. deleteGroup (open_rw ex_tree) ''uuid-1'' = Inr (s', None) \<and> httpStatus s' = 200"
    by blast
  from A B C D show ?thesis by blast
qed

section \<open>Deleting a group\<close>
















section \<open>The listing loop, branch by branch\<close>

text \<open>The branches behind claims C6 and C7, for any group: once the marker has been passed,
  an external link ends the listing with \<^verbatim>\<open>NameError\<close>, and a link of an unknown class
  ends it with \<^verbatim>\<open>TypeError\<close>, whatever has been listed before and whatever follows. The
  last branch of the loop is taken for a name without a link only; it raises
  \<^verbatim>\<open>UnboundLocalError\<close> when no hard link has bound \<^verbatim>\<open>objClass\<close> yet.\<close>

lemma items_loop_external:
  assumes "k \<noteq> ''__db__''" and "get_link (f s) g k = Some (ExternalLink fn p)"
  shows "items_loop s g classFilter marker limit (k # ks) True n oc items = Inl NameError"
  using assms by (simp add: getlink_def bind_e_def)

lemma items_loop_unknown:
  assumes "k \<noteq> ''__db__''" and "get_link (f s) g k = Some OtherLink"
  shows "items_loop s g classFilter marker limit (k # ks) True n oc items = Inl TypeError"
  using assms by (simp add: getlink_def bind_e_def)

lemma items_loop_no_link_unbound:
  assumes "k \<noteq> ''__db__''" and "get_link (f s) g k = None"
  shows "items_loop s g classFilter marker limit (k # ks) True n None items = Inl UnboundLocalError"
  using assms by (simp add: getlink_def bind_e_def)

lemma page_step:
  assumes "limit \<le> 0 \<or> n < limit"
  shows "page_from limit n (k # ks) =
           (if limit > 0 \<and> n + 1 = limit then [k] else k # page_from limit (n + 1) ks)"
proof (cases "limit > 0")
  case True
  with assms have "nat (limit - n) = Suc (nat (limit - (n + 1)))" by simp
  with True show ?thesis by (simp add: page_from_def)
next
  case False
  then show ?thesis by (simp add: page_from_def)
qed

lemma items_loop_listing:
  assumes "\<forall>k \<in> set ks. k \<noteq> ''__db__'' \<longrightarrow> descr s g k \<noteq> None"
    and "limit \<le> 0 \<or> n < limit"
  shows "\<exists>its. items_loop s g None marker limit ks True n oc items = Inr its \<and>
           map Some its =
             map Some items @ map (descr s g) (page_from limit n (filter (\<lambda>k. k \<noteq> ''__db__'') ks))"
  using assms
proof (induction ks arbitrary: n oc items)
  case Nil
  then show ?case by (simp add: page_from_def)
next
  case (Cons k ks)
  show ?case
  proof (cases "k = ''__db__''")
    case True
    with Cons.IH [of n oc items] Cons.prems show ?thesis by simp
  next
    case False
    with Cons.prems(1) obtain it where it: "descr s g k = Some it" by auto
    have rest: "\<forall>k \<in> set ks. k \<noteq> ''__db__'' \<longrightarrow> descr s g k \<noteq> None"
      using Cons.prems(1) by simp
    note ps = page_step [OF Cons.prems(2), of k "filter (\<lambda>k. k \<noteq> ''__db__'') ks"]
    show ?thesis
    proof (cases "limit > 0 \<and> n + 1 = limit")
      case True
      with it False show ?thesis
        by (auto simp: descr_def ps truthy_def bind_e_def Let_def get_member_hard getlink_def
            split: option.splits link.splits sum.splits if_splits)
    next
      case nl: False
      with Cons.prems(2) have c: "limit \<le> 0 \<or> n + 1 < limit" by auto
      from it False nl obtain oc' where
        st: "items_loop s g None marker limit (k # ks) True n oc items =
             items_loop s g None marker limit ks True (n + 1) oc' (items @ [it])"
        by (auto simp: descr_def truthy_def bind_e_def Let_def get_member_hard getlink_def
            split: option.splits link.splits sum.splits if_splits)
      from Cons.IH [OF rest c, of oc' "items @ [it]"] obtain its where
        1: "items_loop s g None marker limit ks True (n + 1) oc' (items @ [it]) = Inr its" and
        2: "map Some its = map Some (items @ [it]) @
              map (descr s g) (page_from limit (n + 1) (filter (\<lambda>k. k \<noteq> ''__db__'') ks))"
        by blast
      have 3: "filter (\<lambda>k. k \<noteq> ''__db__'') (k # ks) = k # filter (\<lambda>k. k \<noteq> ''__db__'') ks"
        using False by simp
      have 4: "page_from limit n (k # filter (\<lambda>k. k \<noteq> ''__db__'') ks) =
               k # page_from limit (n + 1) (filter (\<lambda>k. k \<noteq> ''__db__'') ks)"
        using ps nl by auto
      show ?thesis
        unfolding st 3 4 using 1 2 it by simp
    qed
  qed
qed

lemma items_loop_marker:
  assumes "\<forall>k \<in> set ks. k \<noteq> ''__db__'' \<longrightarrow> descr s g k \<noteq> None"
    and "limit \<le> 0 \<or> n < limit"
  shows "\<exists>its. items_loop s g None (Some m) limit ks False n oc items = Inr its \<and>
           map Some its =
             map Some items @
             map (descr s g)
               (page_from limit n (tl (dropWhile (\<lambda>k. k \<noteq> m) (filter (\<lambda>k. k \<noteq> ''__db__'') ks))))"
  using assms
proof (induction ks)
  case Nil
  then show ?case by (simp add: page_from_def)
next
  case (Cons k ks)
  show ?case
  proof (cases "k \<noteq> ''__db__'' \<and> k = m")
    case True
    have rest: "\<forall>k \<in> set ks. k \<noteq> ''__db__'' \<longrightarrow> descr s g k \<noteq> None"
      using Cons.prems(1) by simp
    from True have km: "k = m" and md: "m \<noteq> ''__db__''" by auto
    have 1: "items_loop s g None (Some m) limit (k # ks) False n oc items =
             items_loop s g None (Some m) limit ks True n oc items"
      using km md by simp
    have 2: "tl (dropWhile (\<lambda>k. k \<noteq> m) (filter (\<lambda>k. k \<noteq> ''__db__'') (k # ks))) =
             filter (\<lambda>k. k \<noteq> ''__db__'') ks"
      using km md by simp
    from items_loop_listing [OF rest Cons.prems(2), of "Some m" oc items]
    show ?thesis unfolding 1 2 .
  next
    case False
    with Cons show ?thesis by auto
  qed
qed

text \<open>
  The page the listing returns when every child it may have to describe is a hard or a
  symbolic link and no class filter is given: the descriptors, in native order, of the
  names \<open>paginate_spec\<close> selects. This is the pagination of claim C5 wherever the
  descriptors can be built.
\<close>

lemma getItems_page:
  assumes "initFile s = Inr s1"
    and "getGroupByUuid s1 grpUuid = Inr (s2, Some g)"
    and "\<forall>k \<in> set (names_of (f s2) g). k \<noteq> ''__db__'' \<longrightarrow> descr s2 g k \<noteq> None"
  shows "\<exists>its. getItems s grpUuid None marker limit = Inr (s2, Some its) \<and>
           map Some its = map (descr s2 g) (paginate_spec marker limit (names_of (f s2) g))"
proof (cases marker)
  case None
  have lim: "limit \<le> 0 \<or> 0 < limit" by auto
  from items_loop_listing [OF assms(3) lim, of None None "[]"] obtain its where
    "items_loop s2 g None None limit (names_of (f s2) g) True 0 None [] = Inr its"
    "map Some its = map (descr s2 g)
        (page_from limit 0 (filter (\<lambda>k. k \<noteq> ''__db__'') (names_of (f s2) g)))"
    by auto
  with assms(1,2) None show ?thesis
    by (simp add: getItems_def bind_e_def paginate_spec_def page_from_def)
next
  case (Some m)
  have lim: "limit \<le> 0 \<or> 0 < limit" by auto
  from items_loop_marker [OF assms(3) lim, of m None "[]"] obtain its where
    "items_loop s2 g None (Some m) limit (names_of (f s2) g) False 0 None [] = Inr its"
    "map Some its = map (descr s2 g)
        (page_from limit 0
          (tl (dropWhile (\<lambda>k. k \<noteq> m) (filter (\<lambda>k. k \<noteq> ''__db__'') (names_of (f s2) g)))))"
    by auto
  with assms(1,2) Some show ?thesis
    by (simp add: getItems_def bind_e_def paginate_spec_def page_from_def)
qed

lemma getItems_page_example:
  "map_sum id snd (getItems (open_rw ex_tree) ''uuid-0'' None (Some ''b'') 2) =
     Inr (Some [SoftItem ''c'' ''/a'', HardItem ''d'' ''Dataset'' (Some ''uuid-2'') 1])"
  by code_simp

end
